theory Spec2Isabelle
  imports Complex_Main "HOL-Library.Multiset"
begin

section \<open>Data model\<close>

text \<open>
  The two modules \<^verbatim>\<open>seller.py\<close> (single-store marketplace) and \<^verbatim>\<open>market.py\<close>
  (multi-campaign marketplace) work on plain Python lists, dictionaries and strings.

  Strings are \<^typ>\<open>string\<close>; a character outside ASCII stands as its UTF-8 bytes. The
  functions below compare strings for equality, split at the ASCII full stop and keep
  ASCII digits, and none of these can tell a code point from its UTF-8 bytes. Only
  \<^verbatim>\<open>int\<close> looks at the characters outside ASCII, with the tables of its interpreter;
  that reading is a parameter of the model (\<open>to_ascii\<close> below).

  A row of the supplier feed is a dictionary keyed by the Russian words for code,
  quantity and price; the fields below are named by transliteration. The cells are
  text, as in the docstrings of the source (where \<^verbatim>\<open>create_stocks\<close> is shown a row
  with the code \<^verbatim>\<open>"123"\<close> and the quantity \<^verbatim>\<open>"5"\<close>), so that \<^verbatim>\<open>str(cell)\<close> is
  the cell.
\<close>

datatype error = ValueError | TransportError

record watch =
  Kod :: string
  Kolichestvo :: string
  Tsena :: string

text \<open>The dictionary \<^verbatim>\<open>{"offer_id": ..., "stock": ...}\<close> of \<^verbatim>\<open>seller.create_stocks\<close>.\<close>

record ozon_stock =
  s_offer_id :: string
  s_stock :: int

text \<open>The price dictionary of \<^verbatim>\<open>seller.create_prices\<close>.\<close>

record ozon_price =
  auto_action_enabled :: string
  currency_code :: string
  p_offer_id :: string
  old_price :: string
  p_price :: string

text \<open>The nested dictionaries of \<^verbatim>\<open>market.create_stocks\<close> and \<^verbatim>\<open>market.create_prices\<close>.\<close>

record market_item =
  item_count :: int
  item_type :: string
  updatedAt :: string

record market_stock =
  sku :: string
  warehouseId :: string
  items :: "market_item list"

record market_price_value =
  pv_value :: int
  currencyId :: string

record market_price =
  mp_id :: string
  mp_price :: market_price_value

text \<open>
  One entry of the catalogue listing and one page of it, as \<^verbatim>\<open>seller.get_product_list\<close>
  returns them: the keys \<^verbatim>\<open>"items"\<close>, \<^verbatim>\<open>"total"\<close> and \<^verbatim>\<open>"last_id"\<close>.
\<close>

record product =
  offer_id :: string

record page =
  page_items :: "product list"
  page_total :: int
  page_last_id :: string

section \<open>Python primitives\<close>

definition is_digit :: "char \<Rightarrow> bool" where
  "is_digit c = (c \<in> set ''0123456789'')"

definition digit_val :: "char \<Rightarrow> nat" where
  "digit_val c = of_char c - 48"

text \<open>
  The white space that \<^verbatim>\<open>int\<close> skips around a number: tab, line feed, vertical tab,
  form feed, carriage return and the space.
\<close>

definition is_space :: "char \<Rightarrow> bool" where
  "is_space c = (c \<in> set [CHR 0x09, CHR 0x0A, CHR 0x0B, CHR 0x0C, CHR 0x0D, CHR 0x20])"

definition strip :: "string \<Rightarrow> string" where
  "strip s = rev (dropWhile is_space (rev (dropWhile is_space s)))"

text \<open>
  The digits of a decimal literal: at least one digit, and single underscores between
  digits only. \<open>prev\<close> tells whether the character just read was a digit.
\<close>

fun parse_digits :: "bool \<Rightarrow> nat \<Rightarrow> string \<Rightarrow> nat option" where
  "parse_digits prev acc [] = (if prev then Some acc else None)"
| "parse_digits prev acc (c # cs) =
     (if is_digit c then parse_digits True (10 * acc + digit_val c) cs
      else if c = CHR ''_'' \<and> prev then parse_digits False acc cs
      else None)"

text \<open>
  Two things that \<^verbatim>\<open>int\<close> does with a string are settled by the interpreter and not
  by the repository; the model takes them as parameters.
  \<^item> \<open>max_str_digits\<close> is the interpreter's limit on the digits of a number read from
    a string (\<^verbatim>\<open>sys.get_int_max_str_digits()\<close>): 4300 by default from Python 3.11 on,
    0 where there is no limit. It is looked at only for more than 640 digits.
  \<^item> \<open>to_ascii\<close> is what the interpreter first makes of a text that holds a character
    outside ASCII: by the tables of Unicode, every white space becomes a space, every
    decimal digit its ASCII digit, and every other character outside ASCII a question
    mark, while the ASCII characters stay. A text that is all ASCII is read as it is.
\<close>

record interp =
  max_str_digits :: nat
  to_ascii :: "string \<Rightarrow> string"

definition ascii_text :: "string \<Rightarrow> bool" where
  "ascii_text s = list_all (\<lambda>c. of_char c < (128::nat)) s"

definition ascii_form :: "interp \<Rightarrow> string \<Rightarrow> string" where
  "ascii_form ip s = (if ascii_text s then s else to_ascii ip s)"

definition exceeds_limit :: "interp \<Rightarrow> nat \<Rightarrow> bool" where
  "exceeds_limit ip digits = (640 < digits \<and> 0 < max_str_digits ip \<and> max_str_digits ip < digits)"

text \<open>
  \<^verbatim>\<open>int(s)\<close> on a string, base 10: the white space around is skipped, one sign is
  allowed, then come the digits, and nothing else; a text that is not of this form, or
  has more digits than the limit, raises \<^verbatim>\<open>ValueError\<close>.
\<close>

definition py_int :: "interp \<Rightarrow> string \<Rightarrow> error + int" where
  "py_int ip s =
     (case strip (ascii_form ip s) of
        [] \<Rightarrow> Inl ValueError
      | c # cs \<Rightarrow>
          (let negative = (c = CHR ''-'');
               body = (if c = CHR ''-'' \<or> c = CHR ''+'' then cs else c # cs)
           in case parse_digits False 0 body of
                None \<Rightarrow> Inl ValueError
              | Some n \<Rightarrow>
                  if exceeds_limit ip (length (filter is_digit body)) then Inl ValueError
                  else Inr (if negative then - int n else int n)))"

text \<open>\<^verbatim>\<open>s.split(sep)\<close> for a separator of one character: never the empty list.\<close>

fun py_split :: "string \<Rightarrow> char \<Rightarrow> string list" where
  "py_split [] sep = [[]]"
| "py_split (c # cs) sep =
     (if c = sep then [] # py_split cs sep
      else (case py_split cs sep of [] \<Rightarrow> [[c]] | p # ps \<Rightarrow> (c # p) # ps))"

text \<open>\<^verbatim>\<open>re.sub("[^0-9]", "", s)\<close>: every character outside the class 0-9 is deleted.\<close>

definition re_sub_non_digits :: "string \<Rightarrow> string" where
  "re_sub_non_digits s = filter is_digit s"

text \<open>
  The number that a string of decimal digits reads as, most significant digit first.
  This is the reading the specification of the price parser speaks of; \<open>py_int\<close>
  above is what the code calls.
\<close>

definition decimal_value :: "string \<Rightarrow> nat" where
  "decimal_value ds = foldl (\<lambda>a c. 10 * a + digit_val c) 0 ds"

text \<open>
  What it is for an ASCII text to be a number in base 10, said without the scanner
  above: between the white space around it, an optional sign and then a body that
  begins and ends with a digit and holds nothing but digits and underscores, no two
  underscores side by side. Its value is that of its digits, negated after a minus.
\<close>

definition unsigned :: "string \<Rightarrow> string" where
  "unsigned s = (case s of [] \<Rightarrow> [] | c # cs \<Rightarrow> if c = CHR ''-'' \<or> c = CHR ''+'' then cs else s)"

definition decimal_body :: "string \<Rightarrow> bool" where
  "decimal_body b =
     (b \<noteq> [] \<and> is_digit (hd b) \<and> is_digit (last b) \<and>
      list_all (\<lambda>c. is_digit c \<or> c = CHR ''_'') b \<and>
      list_all (\<lambda>(x, y). \<not> (x = CHR ''_'' \<and> y = CHR ''_'')) (zip b (tl b)))"

definition decimal_literal :: "string \<Rightarrow> bool" where
  "decimal_literal s = decimal_body (unsigned (strip s))"

definition literal_digits :: "string \<Rightarrow> string" where
  "literal_digits s = filter is_digit (unsigned (strip s))"

definition literal_value :: "string \<Rightarrow> int" where
  "literal_value s =
     (if take 1 (strip s) = ''-'' then - int (decimal_value (literal_digits s))
      else int (decimal_value (literal_digits s)))"

text \<open>
  \<^verbatim>\<open>range(start, stop, step)\<close> as the list of its values; a zero step raises
  \<^verbatim>\<open>ValueError\<close>.
\<close>

function range_from :: "int \<Rightarrow> int \<Rightarrow> int \<Rightarrow> int list" where
  "range_from i stop step =
     (if 0 < step \<and> i < stop then i # range_from (i + step) stop step
      else if step < 0 \<and> stop < i then i # range_from (i + step) stop step
      else [])"
  by pat_completeness auto
termination
  by (relation "measure (\<lambda>(i, stop, step). nat (if 0 < step then stop - i else i - stop))") auto

declare range_from.simps [simp del]

definition py_range :: "int \<Rightarrow> int \<Rightarrow> int \<Rightarrow> error + int list" where
  "py_range start stop step = (if step = 0 then Inl ValueError else Inr (range_from start stop step))"

text \<open>
  \<^verbatim>\<open>lst[a:b]\<close>: a negative bound counts from the end, and both bounds are clamped to
  the list.
\<close>

definition slice_bound :: "int \<Rightarrow> int \<Rightarrow> int" where
  "slice_bound len k = (if k < 0 then max 0 (k + len) else min k len)"

definition py_slice :: "'a list \<Rightarrow> int \<Rightarrow> int \<Rightarrow> 'a list" where
  "py_slice lst a b =
     (let len = int (length lst); lo = slice_bound len a; hi = slice_bound len b
      in take (nat (hi - lo)) (drop (nat lo) lst))"

section \<open>\<^verbatim>\<open>seller.py\<close>\<close>

subsection \<open>\<^verbatim>\<open>price_conversion\<close>\<close>

definition price_conversion :: "string \<Rightarrow> string" where
  "price_conversion price = re_sub_non_digits (py_split price CHR ''.'' ! 0)"

subsection \<open>\<^verbatim>\<open>divide\<close>\<close>

text \<open>
  \<^verbatim>\<open>divide\<close> is a generator, and every caller consumes it at once with
  \<^verbatim>\<open>list(divide(lst, n))\<close>; the model is that list. The \<^verbatim>\<open>ValueError\<close> of a zero
  step comes up when the generator is first advanced.
\<close>

definition divide :: "'a list \<Rightarrow> int \<Rightarrow> error + 'a list list" where
  "divide lst n =
     (case py_range 0 (int (length lst)) n of
        Inl e \<Rightarrow> Inl e
      | Inr is \<Rightarrow> Inr (map (\<lambda>i. py_slice lst i (i + n)) is))"

subsection \<open>\<^verbatim>\<open>create_stocks\<close>\<close>

text \<open>
  The \<^verbatim>\<open>if\<close>/\<^verbatim>\<open>elif\<close>/\<^verbatim>\<open>else\<close> on the quantity cell, the same lines in both
  modules: \<^verbatim>\<open>">10"\<close> is 100, \<^verbatim>\<open>"1"\<close> is 0, anything else goes through \<^verbatim>\<open>int\<close>.
\<close>

definition quantity_stock :: "interp \<Rightarrow> string \<Rightarrow> error + int" where
  "quantity_stock ip count_text =
     (if count_text = ''>10'' then Inr 100
      else if count_text = ''1'' then Inr 0
      else py_int ip count_text)"

text \<open>
  \<^verbatim>\<open>offer_ids\<close> is the caller's list, and \<^verbatim>\<open>offer_ids.remove\<close> changes it in place.
  Every function that receives the list therefore returns, next to its outcome, what
  the list holds when the call ends, by return or by exception.
\<close>

fun seller_stocks_loop ::
  "interp \<Rightarrow> watch list \<Rightarrow> string list \<Rightarrow> ozon_stock list
     \<Rightarrow> (error + ozon_stock list) \<times> string list" where
  "seller_stocks_loop ip [] offer_ids stocks = (Inr stocks, offer_ids)"
| "seller_stocks_loop ip (w # ws) offer_ids stocks =
     (if Kod w \<in> set offer_ids then
        (case quantity_stock ip (Kolichestvo w) of
           Inl e \<Rightarrow> (Inl e, offer_ids)
         | Inr n \<Rightarrow>
             seller_stocks_loop ip ws (remove1 (Kod w) offer_ids)
               (stocks @ [\<lparr>s_offer_id = Kod w, s_stock = n\<rparr>]))
      else seller_stocks_loop ip ws offer_ids stocks)"

definition seller_create_stocks ::
  "interp \<Rightarrow> watch list \<Rightarrow> string list \<Rightarrow> (error + ozon_stock list) \<times> string list" where
  "seller_create_stocks ip watch_remnants offer_ids =
     (case seller_stocks_loop ip watch_remnants offer_ids [] of
        (Inl e, offer_ids') \<Rightarrow> (Inl e, offer_ids')
      | (Inr stocks, offer_ids') \<Rightarrow>
          (Inr (stocks @ map (\<lambda>i. \<lparr>s_offer_id = i, s_stock = 0\<rparr>) offer_ids'), offer_ids'))"

subsection \<open>\<^verbatim>\<open>create_prices\<close>\<close>

fun seller_prices_loop ::
  "watch list \<Rightarrow> string list \<Rightarrow> ozon_price list \<Rightarrow> ozon_price list \<times> string list" where
  "seller_prices_loop [] offer_ids prices = (prices, offer_ids)"
| "seller_prices_loop (w # ws) offer_ids prices =
     (if Kod w \<in> set offer_ids then
        seller_prices_loop ws offer_ids
          (prices @ [\<lparr>auto_action_enabled = ''UNKNOWN'', currency_code = ''RUB'',
                       p_offer_id = Kod w, old_price = ''0'',
                       p_price = price_conversion (Tsena w)\<rparr>])
      else seller_prices_loop ws offer_ids prices)"

definition seller_create_prices ::
  "watch list \<Rightarrow> string list \<Rightarrow> ozon_price list \<times> string list" where
  "seller_create_prices watch_remnants offer_ids = seller_prices_loop watch_remnants offer_ids []"

subsection \<open>\<^verbatim>\<open>get_offer_ids\<close>\<close>

text \<open>
  \<^verbatim>\<open>get_product_list\<close> is a request to the marketplace. The model takes it as a
  parameter \<open>fetch\<close>: from the state of the outside world and the cursor
  \<^verbatim>\<open>last_id\<close> to a page or a transport error, and the next state of the world. The
  \<^verbatim>\<open>while True\<close> loop has no bound, so it is a partial function: \<open>None\<close> is a run
  that never leaves the loop. The result carries the state of the world at the end,
  which tells how many requests were made.
\<close>

partial_function (option) offer_ids_loop ::
  "('w \<Rightarrow> string \<Rightarrow> (error + page) \<times> 'w) \<Rightarrow> 'w \<Rightarrow> string \<Rightarrow> product list
     \<Rightarrow> ((error + product list) \<times> 'w) option" where
  "offer_ids_loop fetch world last_id product_list =
     (case fetch world last_id of
        (Inl e, world') \<Rightarrow> Some (Inl e, world')
      | (Inr some_prod, world') \<Rightarrow>
          (let product_list' = product_list @ page_items some_prod
           in if page_total some_prod = int (length product_list')
              then Some (Inr product_list', world')
              else offer_ids_loop fetch world' (page_last_id some_prod) product_list'))"

definition get_offer_ids ::
  "('w \<Rightarrow> string \<Rightarrow> (error + page) \<times> 'w) \<Rightarrow> 'w \<Rightarrow> ((error + string list) \<times> 'w) option" where
  "get_offer_ids fetch world =
     (case offer_ids_loop fetch world [] [] of
        None \<Rightarrow> None
      | Some (Inl e, world') \<Rightarrow> Some (Inl e, world')
      | Some (Inr product_list, world') \<Rightarrow> Some (Inr (map offer_id product_list), world'))"

text \<open>
  To speak of the pages that the marketplace would send: \<open>fetched fetch world k\<close> is
  the answer to \<open>k\<close> requests made one after the other from \<open>world\<close>, each with the
  cursor of the page before it (the empty string first), as long as every answer is a
  page: the pages in order, the cursor of the last one, and the world after it.
  \<open>accumulated\<close> is the list of their items, and \<open>complete\<close> says that the total
  reported by the last page is the number of items accumulated so far.
\<close>

primrec fetched ::
  "('w \<Rightarrow> string \<Rightarrow> (error + page) \<times> 'w) \<Rightarrow> 'w \<Rightarrow> nat \<Rightarrow> (page list \<times> string \<times> 'w) option" where
  "fetched fetch world 0 = Some ([], [], world)"
| "fetched fetch world (Suc k) =
     (case fetched fetch world k of
        None \<Rightarrow> None
      | Some (pages, last_id, world') \<Rightarrow>
          (case fetch world' last_id of
             (Inl e, world'') \<Rightarrow> None
           | (Inr some_prod, world'') \<Rightarrow>
               Some (pages @ [some_prod], page_last_id some_prod, world'')))"

definition accumulated :: "page list \<Rightarrow> product list" where
  "accumulated pages = concat (map page_items pages)"

definition complete :: "page list \<Rightarrow> bool" where
  "complete pages = (pages \<noteq> [] \<and> page_total (last pages) = int (length (accumulated pages)))"

subsection \<open>\<^verbatim>\<open>main\<close>\<close>


section \<open>\<^verbatim>\<open>market.py\<close>\<close>

subsection \<open>\<^verbatim>\<open>create_stocks\<close>\<close>

text \<open>
  The time stamp \<^verbatim>\<open>date\<close> is read from the clock once, before the loop; the model
  takes it as a parameter.
\<close>

fun market_stocks_loop ::
  "interp \<Rightarrow> string \<Rightarrow> string \<Rightarrow> watch list \<Rightarrow> string list \<Rightarrow> market_stock list
     \<Rightarrow> (error + market_stock list) \<times> string list" where
  "market_stocks_loop ip warehouse_id date [] offer_ids stocks = (Inr stocks, offer_ids)"
| "market_stocks_loop ip warehouse_id date (w # ws) offer_ids stocks =
     (if Kod w \<in> set offer_ids then
        (case quantity_stock ip (Kolichestvo w) of
           Inl e \<Rightarrow> (Inl e, offer_ids)
         | Inr n \<Rightarrow>
             market_stocks_loop ip warehouse_id date ws (remove1 (Kod w) offer_ids)
               (stocks @ [\<lparr>sku = Kod w, warehouseId = warehouse_id,
                           items = [\<lparr>item_count = n, item_type = ''FIT'', updatedAt = date\<rparr>]\<rparr>]))
      else market_stocks_loop ip warehouse_id date ws offer_ids stocks)"

definition market_create_stocks ::
  "interp \<Rightarrow> string \<Rightarrow> watch list \<Rightarrow> string list \<Rightarrow> string
     \<Rightarrow> (error + market_stock list) \<times> string list" where
  "market_create_stocks ip date watch_remnants offer_ids warehouse_id =
     (case market_stocks_loop ip warehouse_id date watch_remnants offer_ids [] of
        (Inl e, offer_ids') \<Rightarrow> (Inl e, offer_ids')
      | (Inr stocks, offer_ids') \<Rightarrow>
          (Inr (stocks @
                map (\<lambda>offer_id. \<lparr>sku = offer_id, warehouseId = warehouse_id,
                                 items = [\<lparr>item_count = 0, item_type = ''FIT'', updatedAt = date\<rparr>]\<rparr>)
                  offer_ids'),
           offer_ids'))"

subsection \<open>\<^verbatim>\<open>create_prices\<close>\<close>

fun market_prices_loop ::
  "interp \<Rightarrow> watch list \<Rightarrow> string list \<Rightarrow> market_price list
     \<Rightarrow> (error + market_price list) \<times> string list" where
  "market_prices_loop ip [] offer_ids prices = (Inr prices, offer_ids)"
| "market_prices_loop ip (w # ws) offer_ids prices =
     (if Kod w \<in> set offer_ids then
        (case py_int ip (price_conversion (Tsena w)) of
           Inl e \<Rightarrow> (Inl e, offer_ids)
         | Inr v \<Rightarrow>
             market_prices_loop ip ws offer_ids
               (prices @ [\<lparr>mp_id = Kod w, mp_price = \<lparr>pv_value = v, currencyId = ''RUR''\<rparr>\<rparr>]))
      else market_prices_loop ip ws offer_ids prices)"

definition market_create_prices ::
  "interp \<Rightarrow> watch list \<Rightarrow> string list \<Rightarrow> (error + market_price list) \<times> string list" where
  "market_create_prices ip watch_remnants offer_ids = market_prices_loop ip watch_remnants offer_ids []"

section \<open>Properties of the primitives\<close>

lemma py_split_first:
  "py_split s sep \<noteq> [] \<and> py_split s sep ! 0 = takeWhile (\<lambda>c. c \<noteq> sep) s"
  by (induction s) (auto split: list.splits)

lemma price_conversion_eq:
  "price_conversion s = filter is_digit (takeWhile (\<lambda>c. c \<noteq> CHR ''.'') s)"
  by (simp add: price_conversion_def re_sub_non_digits_def py_split_first)

lemma takeWhile_stop:
  "\<forall>x \<in> set a. P x \<Longrightarrow> \<not> P y \<Longrightarrow> takeWhile P (a @ y # b) = a"
  by (induction a) auto

lemma digit_not_underscore: "is_digit c \<Longrightarrow> c \<noteq> CHR ''_''"
  by (auto simp: is_digit_def)

lemma digit_not_sign: "is_digit c \<Longrightarrow> c \<noteq> CHR ''-'' \<and> c \<noteq> CHR ''+''"
  by (auto simp: is_digit_def)

lemma digit_ascii: "is_digit c \<Longrightarrow> of_char c < (128::nat)"
  by (auto simp: is_digit_def)

lemma digit_not_space: "is_digit c \<Longrightarrow> \<not> is_space c"
  by (auto simp: is_digit_def is_space_def)

lemma digits_ascii_text: "\<forall>c \<in> set ds. is_digit c \<Longrightarrow> ascii_text ds"
  by (simp add: ascii_text_def list_all_iff digit_ascii)

lemma strip_no_space:
  assumes "\<forall>c \<in> set s. \<not> is_space c"
  shows "strip s = s"
proof -
  have fore: "dropWhile is_space s = s"
    using assms by (cases s) auto
  have aft: "dropWhile is_space (rev s) = rev s"
    using assms by (cases "rev s") (auto dest: arg_cong [where f = set])
  show ?thesis
    by (simp add: strip_def fore aft)
qed

lemma parse_digits_char:
  "parse_digits prev acc b =
     (if list_all (\<lambda>c. is_digit c \<or> c = CHR ''_'') b \<and>
         list_all (\<lambda>(x, y). \<not> (x = CHR ''_'' \<and> y = CHR ''_'')) (zip b (tl b)) \<and>
         (b = [] \<longrightarrow> prev) \<and>
         (b \<noteq> [] \<longrightarrow> (hd b = CHR ''_'' \<longrightarrow> prev) \<and> last b \<noteq> CHR ''_'')
      then Some (foldl (\<lambda>a c. 10 * a + digit_val c) acc (filter is_digit b))
      else None)"
proof (induction b arbitrary: prev acc)
  case Nil
  show ?case by simp
next
  case (Cons c cs)
  show ?case
  proof (cases "is_digit c")
    case True
    then have u: "c \<noteq> CHR ''_''" by (rule digit_not_underscore)
    show ?thesis
      using True u Cons.IH [of True "10 * acc + digit_val c"]
      by (cases cs) auto
  next
    case False
    show ?thesis
    proof (cases "c = CHR ''_'' \<and> prev")
      case True
      then show ?thesis
        using False Cons.IH [of False acc]
        by (cases cs) auto
    next
      case nn: False
      then show ?thesis
        using False by auto
    qed
  qed
qed

lemma decimal_body_char:
  "decimal_body b \<longleftrightarrow>
     list_all (\<lambda>c. is_digit c \<or> c = CHR ''_'') b \<and>
     list_all (\<lambda>(x, y). \<not> (x = CHR ''_'' \<and> y = CHR ''_'')) (zip b (tl b)) \<and>
     (b = [] \<longrightarrow> False) \<and>
     (b \<noteq> [] \<longrightarrow> (hd b = CHR ''_'' \<longrightarrow> False) \<and> last b \<noteq> CHR ''_'')"
proof (cases "b = []")
  case True
  then show ?thesis by (simp add: decimal_body_def)
next
  case False
  then have m: "hd b \<in> set b" "last b \<in> set b" by simp_all
  show ?thesis
  proof (cases "list_all (\<lambda>c. is_digit c \<or> c = CHR ''_'') b")
    case True
    then have h: "is_digit (hd b) \<or> hd b = CHR ''_''" and l: "is_digit (last b) \<or> last b = CHR ''_''"
      using m by (auto simp: list_all_iff)
    show ?thesis
      using False True h l digit_not_underscore [of "hd b"] digit_not_underscore [of "last b"]
      by (auto simp: decimal_body_def)
  next
    case nn: False
    then show ?thesis by (simp add: decimal_body_def)
  qed
qed

lemma parse_digits_body:
  "parse_digits False 0 b = (if decimal_body b then Some (decimal_value (filter is_digit b)) else None)"
  unfolding parse_digits_char [of False 0 b] decimal_body_char decimal_value_def by simp

lemma scan_char:
  "(case b of
      [] \<Rightarrow> Inl ValueError
    | c # cs \<Rightarrow>
        (let negative = (c = CHR ''-'');
             body = (if c = CHR ''-'' \<or> c = CHR ''+'' then cs else c # cs)
         in case parse_digits False 0 body of
              None \<Rightarrow> Inl ValueError
            | Some n \<Rightarrow>
                if exceeds_limit ip (length (filter is_digit body)) then Inl ValueError
                else Inr (if negative then - int n else int n))) =
   (if decimal_body (unsigned b) \<and> \<not> exceeds_limit ip (length (filter is_digit (unsigned b)))
    then Inr (if take 1 b = ''-'' then - int (decimal_value (filter is_digit (unsigned b)))
              else int (decimal_value (filter is_digit (unsigned b))))
    else Inl ValueError)"
proof (cases b)
  case Nil
  then show ?thesis
    by (simp add: unsigned_def decimal_body_def)
next
  case (Cons c cs)
  show ?thesis
  proof (cases "c = CHR ''-'' \<or> c = CHR ''+''")
    case True
    then have u: "unsigned b = cs"
      using Cons by (simp add: unsigned_def)
    show ?thesis
      unfolding u using Cons True
      by (auto simp: Let_def parse_digits_body simp del: parse_digits.simps)
  next
    case False
    then have u: "unsigned b = c # cs"
      using Cons by (simp add: unsigned_def)
    show ?thesis
      unfolding u using Cons False
      by (simp add: Let_def parse_digits_body del: parse_digits.simps)
  qed
qed

lemma py_int_char:
  "py_int ip s =
     (if decimal_literal (ascii_form ip s) \<and>
         \<not> exceeds_limit ip (length (literal_digits (ascii_form ip s)))
      then Inr (literal_value (ascii_form ip s))
      else Inl ValueError)"
  unfolding py_int_def decimal_literal_def literal_digits_def literal_value_def
  by (rule scan_char)

lemma py_int_error: "py_int ip s = Inl e \<Longrightarrow> e = ValueError"
  by (simp add: py_int_char split: if_splits)

lemma py_int_empty: "py_int ip [] = Inl ValueError"
  by (simp add: py_int_def ascii_form_def ascii_text_def strip_def)

lemma py_int_digits:
  assumes "\<forall>c \<in> set ds. is_digit c" and "ds \<noteq> []"
  shows "py_int ip ds =
           (if exceeds_limit ip (length ds) then Inl ValueError else Inr (int (decimal_value ds)))"
proof -
  have a: "ascii_form ip ds = ds"
    using digits_ascii_text [OF assms(1)] by (simp add: ascii_form_def)
  have s: "strip ds = ds"
    using assms(1) by (intro strip_no_space) (auto dest: digit_not_space)
  obtain c cs where ds: "ds = c # cs"
    using assms(2) by (cases ds) auto
  have "is_digit c"
    using assms(1) ds by simp
  then have c: "c \<noteq> CHR ''-''" "c \<noteq> CHR ''+''"
    using digit_not_sign by blast+
  have u: "unsigned ds = ds"
    using c by (simp add: unsigned_def ds)
  have f: "filter is_digit ds = ds"
    using assms(1) by simp
  have t: "take 1 ds \<noteq> ''-''"
    using c(1) by (simp add: ds)
  have und: "\<forall>c \<in> set ds. c \<noteq> CHR ''_''"
    using assms(1) digit_not_underscore by blast
  have "list_all (\<lambda>(x, y). \<not> (x = CHR ''_'' \<and> y = CHR ''_'')) (zip ds (tl ds))"
    unfolding list_all_iff using und by (auto dest: in_set_zipE)
  moreover have "list_all (\<lambda>c. is_digit c \<or> c = CHR ''_'') ds"
    unfolding list_all_iff using assms(1) by blast
  moreover have "is_digit (hd ds)" "is_digit (last ds)"
    using assms by simp_all
  ultimately have body: "decimal_body ds"
    using assms(2) by (simp add: decimal_body_def)
  have lit: "decimal_literal ds"
    by (simp only: decimal_literal_def s u body)
  have dig: "literal_digits ds = ds"
    by (simp only: literal_digits_def s u f)
  have val: "literal_value ds = int (decimal_value ds)"
    unfolding literal_value_def dig s using t by (simp only: if_False)
  show ?thesis
    unfolding py_int_char a dig val using lit by simp
qed

section \<open>Properties of \<^verbatim>\<open>divide\<close>\<close>

lemma py_slice_chunk:
  "0 \<le> i \<Longrightarrow> 0 < n \<Longrightarrow> py_slice xs i (i + n) = take (nat n) (drop (nat i) xs)"
  by (auto simp: py_slice_def slice_bound_def Let_def min_def intro!: take_all)

lemma range_from_concat:
  "0 < n \<Longrightarrow> 0 \<le> i \<Longrightarrow>
   concat (map (\<lambda>j. py_slice xs j (j + n)) (range_from i (int (length xs)) n)) = drop (nat i) xs"
proof (induction i "int (length xs)" n rule: range_from.induct)
  case (1 i step)
  show ?case
  proof (cases "i < int (length xs)")
    case True
    have "nat (i + step) = nat step + nat i"
      using 1(3,4) by simp
    then show ?thesis
      using True 1
      by (subst range_from.simps) (simp add: py_slice_chunk drop_drop [symmetric] del: drop_drop)
  next
    case False
    then show ?thesis
      using 1(3,4) by (subst range_from.simps) simp
  qed
qed

lemma range_from_length:
  "0 < n \<Longrightarrow> length (range_from i stop n) = nat (- ((i - stop) div n))"
proof (induction i stop n rule: range_from.induct)
  case (1 i stop step)
  show ?case
  proof (cases "i < stop")
    case True
    have d: "(i + step - stop) div step = (i - stop) div step + 1"
      using 1(3) by (metis add.commute add_diff_eq div_add_self1 less_irrefl)
    have "(i - stop) div step < 0"
      using True 1(3) by (simp add: div_neg_pos_less0)
    then show ?thesis
      using True 1 d by (subst range_from.simps) simp
  next
    case False
    then have "0 \<le> (i - stop) div step"
      using 1(3) by (simp add: pos_imp_zdiv_nonneg_iff)
    then show ?thesis
      using False 1(3) by (subst range_from.simps) simp
  qed
qed

lemma range_from_neg: "n < 0 \<Longrightarrow> 0 \<le> stop \<Longrightarrow> range_from 0 stop n = []"
  by (subst range_from.simps) simp

lemma chunk_lengths:
  "0 < n \<Longrightarrow> 0 \<le> i \<Longrightarrow>
   bs = map (\<lambda>j. py_slice xs j (j + n)) (range_from i (int (length xs)) n) \<Longrightarrow>
   (\<forall>b \<in> set (butlast bs). int (length b) = n) \<and>
   (bs \<noteq> [] \<longrightarrow> 1 \<le> length (last bs) \<and> int (length (last bs)) \<le> n) \<and>
   (i < int (length xs) \<longrightarrow> bs \<noteq> [])"
proof (induction i "int (length xs)" n arbitrary: bs rule: range_from.induct)
  case (1 i step)
  show ?case
  proof (cases "i < int (length xs)")
    case True
    let ?rest = "map (\<lambda>j. py_slice xs j (j + step)) (range_from (i + step) (int (length xs)) step)"
    have bs: "bs = take (nat step) (drop (nat i) xs) # ?rest"
      using True 1(3,4,5) by (subst (asm) range_from.simps) (simp add: py_slice_chunk)
    have IH: "(\<forall>b \<in> set (butlast ?rest). int (length b) = step) \<and>
      (?rest \<noteq> [] \<longrightarrow> 1 \<le> length (last ?rest) \<and> int (length (last ?rest)) \<le> step) \<and>
      (i + step < int (length xs) \<longrightarrow> ?rest \<noteq> [])"
      using 1(1) [of ?rest] True 1(3,4) by simp
    show ?thesis
    proof (cases "?rest = []")
      case e: True
      then have "\<not> i + step < int (length xs)"
        using IH by blast
      then show ?thesis
        using bs e True 1(3,4) by auto
    next
      case ne: False
      then have "i + step < int (length xs)"
        using 1(3) by (subst (asm) range_from.simps) (auto split: if_splits)
      then show ?thesis
        using bs ne IH 1(3,4) by auto
    qed
  next
    case False
    then show ?thesis
      using 1(3,5) by (subst (asm) range_from.simps) simp
  qed
qed

lemma ceiling_as_div:
  "0 < (n::int) \<Longrightarrow> \<lceil>real m / real_of_int n\<rceil> = - ((0 - int m) div n)"
  using ceiling_divide_eq_div [of "int m" n] by simp

section \<open>Properties of the reconcilers\<close>

lemma quantity_stock_error: "quantity_stock ip t = Inl e \<Longrightarrow> e = ValueError"
  by (auto simp: quantity_stock_def split: if_splits dest: py_int_error)

lemma seller_stocks_loop_append:
  "seller_stocks_loop ip (xs @ ys) ids acc =
     (case seller_stocks_loop ip xs ids acc of
        (Inl e, ids') \<Rightarrow> (Inl e, ids')
      | (Inr mid, ids') \<Rightarrow> seller_stocks_loop ip ys ids' mid)"
  by (induction xs arbitrary: ids acc) (auto split: sum.splits)

lemma seller_stocks_loop_mset:
  "seller_stocks_loop ip R ids acc = (Inr stocks, ids') \<Longrightarrow>
   \<exists>new. stocks = acc @ new \<and> mset (map s_offer_id new) + mset ids' = mset ids \<and>
     (\<forall>u \<in> set new. \<exists>w \<in> set R. s_offer_id u = Kod w \<and> quantity_stock ip (Kolichestvo w) = Inr (s_stock u))"
proof (induction R arbitrary: ids acc)
  case Nil
  then show ?case by simp
next
  case (Cons w ws)
  show ?case
  proof (cases "Kod w \<in> set ids")
    case True
    with Cons.prems obtain n where n: "quantity_stock ip (Kolichestvo w) = Inr n"
      and run: "seller_stocks_loop ip ws (remove1 (Kod w) ids) (acc @ [\<lparr>s_offer_id = Kod w, s_stock = n\<rparr>]) = (Inr stocks, ids')"
      by (auto split: sum.splits)
    from Cons.IH [OF run] obtain new where new: "stocks = (acc @ [\<lparr>s_offer_id = Kod w, s_stock = n\<rparr>]) @ new"
      "mset (map s_offer_id new) + mset ids' = mset (remove1 (Kod w) ids)"
      "\<forall>u \<in> set new. \<exists>w \<in> set ws. s_offer_id u = Kod w \<and> quantity_stock ip (Kolichestvo w) = Inr (s_stock u)"
      by blast
    let ?new = "\<lparr>s_offer_id = Kod w, s_stock = n\<rparr> # new"
    have "stocks = acc @ ?new" using new(1) by simp
    moreover have "mset (map s_offer_id ?new) + mset ids' = mset ids"
      using new(2) True by simp
    moreover have "\<forall>u \<in> set ?new. \<exists>w' \<in> set (w # ws). s_offer_id u = Kod w' \<and> quantity_stock ip (Kolichestvo w') = Inr (s_stock u)"
      using new(3) n by auto
    ultimately show ?thesis by blast
  next
    case False
    with Cons.prems have run: "seller_stocks_loop ip ws ids acc = (Inr stocks, ids')" by simp
    from Cons.IH [OF run] show ?thesis by auto
  qed
qed

lemma seller_stocks_loop_rest:
  "seller_stocks_loop ip R ids acc = (Inr stocks, ids') \<Longrightarrow> distinct ids \<Longrightarrow>
   ids' = filter (\<lambda>c. c \<notin> Kod ` set R) ids"
proof (induction R arbitrary: ids acc)
  case Nil
  then show ?case by simp
next
  case (Cons w ws)
  show ?case
  proof (cases "Kod w \<in> set ids")
    case True
    with Cons.prems obtain n where
      run: "seller_stocks_loop ip ws (remove1 (Kod w) ids) (acc @ [\<lparr>s_offer_id = Kod w, s_stock = n\<rparr>]) = (Inr stocks, ids')"
      by (auto split: sum.splits)
    have r: "remove1 (Kod w) ids = filter (\<lambda>c. c \<noteq> Kod w) ids"
      using Cons.prems(2) by (simp add: distinct_remove1_removeAll removeAll_filter_not_eq) metis
    have "ids' = filter (\<lambda>c. c \<notin> Kod ` set ws) (remove1 (Kod w) ids)"
      using Cons.IH [OF run] Cons.prems(2) by simp
    then show ?thesis unfolding r by (auto intro: filter_cong)
  next
    case False
    with Cons.prems have run: "seller_stocks_loop ip ws ids acc = (Inr stocks, ids')" by simp
    have "ids' = filter (\<lambda>c. c \<notin> Kod ` set ws) ids" using Cons.IH [OF run] Cons.prems(2) .
    then show ?thesis using False by (auto intro: filter_cong)
  qed
qed

lemma seller_stocks_loop_total:
  "\<forall>w \<in> set R. Kod w \<in> set ids \<longrightarrow> (\<exists>n. quantity_stock ip (Kolichestvo w) = Inr n) \<Longrightarrow>
   \<exists>stocks ids'. seller_stocks_loop ip R ids acc = (Inr stocks, ids')"
proof (induction R arbitrary: ids acc)
  case Nil
  then show ?case by simp
next
  case (Cons w ws)
  show ?case
  proof (cases "Kod w \<in> set ids")
    case True
    then obtain n where n: "quantity_stock ip (Kolichestvo w) = Inr n" using Cons.prems by auto
    have "\<forall>w' \<in> set ws. Kod w' \<in> set (remove1 (Kod w) ids) \<longrightarrow> (\<exists>n. quantity_stock ip (Kolichestvo w') = Inr n)"
      using Cons.prems by (auto dest: notin_set_remove1)
    from Cons.IH [OF this] show ?thesis using True n by simp
  next
    case False
    then show ?thesis using Cons by simp
  qed
qed

lemma seller_prices_loop_eq:
  "seller_prices_loop R ids acc =
     (acc @ map (\<lambda>w. \<lparr>auto_action_enabled = ''UNKNOWN'', currency_code = ''RUB'',
                       p_offer_id = Kod w, old_price = ''0'',
                       p_price = price_conversion (Tsena w)\<rparr>) (filter (\<lambda>w. Kod w \<in> set ids) R), ids)"
  by (induction R arbitrary: acc) auto

lemma market_prices_loop_ids: "snd (market_prices_loop ip R ids acc) = ids"
  by (induction R arbitrary: acc) (auto split: sum.splits)

lemma market_prices_loop_error:
  "w \<in> set R \<Longrightarrow> Kod w \<in> set ids \<Longrightarrow> py_int ip (price_conversion (Tsena w)) = Inl e \<Longrightarrow>
   fst (market_prices_loop ip R ids acc) = Inl ValueError"
proof (induction R arbitrary: acc)
  case Nil
  then show ?case by simp
next
  case (Cons r rs)
  show ?case
  proof (cases "Kod r \<in> set ids")
    case True
    show ?thesis
    proof (cases "py_int ip (price_conversion (Tsena r))")
      case (Inl e')
      then show ?thesis using True py_int_error [OF Inl] by simp
    next
      case (Inr v)
      then have "w \<in> set rs" using Cons.prems by auto
      then show ?thesis using True Inr Cons by simp
    qed
  next
    case False
    then have "w \<in> set rs" using Cons.prems by auto
    then show ?thesis using False Cons by simp
  qed
qed

lemma market_prices_loop_ok:
  "market_prices_loop ip R ids acc = (Inr prices, ids') \<Longrightarrow>
   map mp_id prices = map mp_id acc @ map Kod (filter (\<lambda>w. Kod w \<in> set ids) R)"
  by (induction R arbitrary: acc) (auto split: sum.splits if_splits)

lemma seller_stocks_loop_keeps:
  "seller_stocks_loop ip R ids acc = (Inr stocks, ids') \<Longrightarrow> c \<in> set ids \<Longrightarrow> c \<notin> Kod ` set R \<Longrightarrow>
   c \<in> set ids'"
proof (induction R arbitrary: ids acc)
  case Nil
  then show ?case by simp
next
  case (Cons w ws)
  show ?case
  proof (cases "Kod w \<in> set ids")
    case True
    with Cons.prems obtain n where
      run: "seller_stocks_loop ip ws (remove1 (Kod w) ids) (acc @ [\<lparr>s_offer_id = Kod w, s_stock = n\<rparr>]) = (Inr stocks, ids')"
      by (auto split: sum.splits)
    have "c \<in> set (remove1 (Kod w) ids)"
      using Cons.prems(2,3) by (auto simp: in_set_remove1)
    then show ?thesis
      using Cons.IH [OF run] Cons.prems(3) by simp
  next
    case False
    with Cons.prems show ?thesis
      using Cons.IH [of ids acc] by simp
  qed
qed

lemma seller_stocks_loop_acc:
  "seller_stocks_loop ip R ids acc = (Inr stocks, ids') \<Longrightarrow> set acc \<subseteq> set stocks"
  using seller_stocks_loop_mset [of ip R ids acc stocks ids'] by auto

lemma seller_stocks_loop_only_error:
  "fst (seller_stocks_loop ip R ids acc) = Inl e \<Longrightarrow> e = ValueError"
proof (induction R arbitrary: ids acc)
  case Nil
  then show ?case by simp
next
  case (Cons w ws)
  then show ?case
    by (auto split: if_splits sum.splits dest: quantity_stock_error)
qed

lemma seller_stocks_loop_matched:
  assumes "Kod w \<in> set ids" and "Kod w \<notin> Kod ` set pre"
  shows "(seller_stocks_loop ip (pre @ w # post) ids acc = (Inr stocks, ids') \<longrightarrow>
            (\<exists>n. quantity_stock ip (Kolichestvo w) = Inr n \<and> \<lparr>s_offer_id = Kod w, s_stock = n\<rparr> \<in> set stocks)) \<and>
         (quantity_stock ip (Kolichestvo w) = Inl e \<longrightarrow>
            fst (seller_stocks_loop ip (pre @ w # post) ids acc) = Inl ValueError)"
proof (cases "seller_stocks_loop ip pre ids acc")
  case (Pair r ids1)
  show ?thesis
  proof (cases r)
    case (Inl e')
    then have "e' = ValueError"
      using seller_stocks_loop_only_error [of ip pre ids acc e'] Pair by simp
    then show ?thesis
      using Pair Inl by (simp add: seller_stocks_loop_append)
  next
    case (Inr mid)
    have k: "Kod w \<in> set ids1"
      using seller_stocks_loop_keeps [of ip pre ids acc mid ids1 "Kod w"] Pair Inr assms by simp
    show ?thesis
    proof (cases "quantity_stock ip (Kolichestvo w)")
      case (Inl e')
      then have "e' = ValueError" by (rule quantity_stock_error)
      then show ?thesis
        using Pair Inr Inl k by (simp add: seller_stocks_loop_append)
    next
      case n: (Inr n)
      have "seller_stocks_loop ip (pre @ w # post) ids acc =
              seller_stocks_loop ip post (remove1 (Kod w) ids1) (mid @ [\<lparr>s_offer_id = Kod w, s_stock = n\<rparr>])"
        using Pair Inr n k by (simp add: seller_stocks_loop_append)
      then show ?thesis
        using n seller_stocks_loop_acc [of ip post "remove1 (Kod w) ids1" "mid @ [\<lparr>s_offer_id = Kod w, s_stock = n\<rparr>]" stocks ids']
        by auto
    qed
  qed
qed

lemma seller_stocks_loop_skip:
  assumes "distinct ids" and "Kod d \<in> Kod ` set pre"
  shows "seller_stocks_loop ip (pre @ d # post) ids acc = seller_stocks_loop ip (pre @ post) ids acc"
proof (cases "seller_stocks_loop ip pre ids acc")
  case (Pair r ids1)
  show ?thesis
  proof (cases r)
    case (Inl e)
    then show ?thesis using Pair by (simp add: seller_stocks_loop_append)
  next
    case (Inr mid)
    have "ids1 = filter (\<lambda>c. c \<notin> Kod ` set pre) ids"
      using seller_stocks_loop_rest [of ip pre ids acc mid ids1] Pair Inr assms(1) by simp
    then have "Kod d \<notin> set ids1" using assms(2) by simp
    then show ?thesis using Pair Inr by (simp add: seller_stocks_loop_append)
  qed
qed

lemma seller_stocks_loop_unmatched:
  "\<forall>w \<in> set R. Kod w \<notin> set ids \<Longrightarrow> seller_stocks_loop ip R ids acc = (Inr acc, ids)"
  by (induction R) auto

lemma seller_stocks_loop_length:
  assumes "seller_stocks_loop ip R ids acc = (Inr stocks, ids')"
  shows "length ids' \<le> length ids"
proof -
  from seller_stocks_loop_mset [OF assms] obtain new :: "ozon_stock list" where
    "mset (map s_offer_id new) + mset ids' = mset ids" by blast
  then have "size (mset (map s_offer_id new) + mset ids') = size (mset ids)"
    by simp
  then show ?thesis by simp
qed

lemma seller_stocks_loop_shrinks:
  "seller_stocks_loop ip R ids acc = (Inr stocks, ids') \<Longrightarrow> w \<in> set R \<Longrightarrow> Kod w \<in> set ids \<Longrightarrow>
   length ids' < length ids"
proof (induction R arbitrary: acc)
  case Nil
  then show ?case by simp
next
  case (Cons r rs)
  show ?case
  proof (cases "Kod r \<in> set ids")
    case True
    with Cons.prems obtain n where
      run: "seller_stocks_loop ip rs (remove1 (Kod r) ids) (acc @ [\<lparr>s_offer_id = Kod r, s_stock = n\<rparr>]) = (Inr stocks, ids')"
      by (auto split: sum.splits)
    have "length (remove1 (Kod r) ids) < length ids"
      using True by (simp add: length_remove1) (cases ids; simp)
    then show ?thesis
      using seller_stocks_loop_length [OF run] by simp
  next
    case False
    then have "w \<in> set rs" using Cons.prems by auto
    then show ?thesis using False Cons by simp
  qed
qed

lemma filter_single:
  "distinct (map f xs) \<Longrightarrow> x \<in> set xs \<Longrightarrow> filter (\<lambda>y. f y = f x) xs = [x]"
proof (induction xs)
  case Nil
  then show ?case by simp
next
  case (Cons a xs)
  show ?case
  proof (cases "a = x")
    case True
    then have "f x \<notin> f ` set xs" using Cons.prems(1) by simp
    then have "\<forall>y \<in> set xs. f y \<noteq> f x" by (metis image_eqI)
    then have "filter (\<lambda>y. f y = f x) xs = []" by (simp add: filter_empty_conv)
    then show ?thesis using True by simp
  next
    case False
    then have "x \<in> set xs" using Cons.prems(2) by simp
    then have "f a \<noteq> f x" using Cons.prems(1) by auto
    then show ?thesis using Cons \<open>x \<in> set xs\<close> by simp
  qed
qed

lemma seller_create_stocks_perm:
  assumes "seller_create_stocks ip R C = (Inr stocks, C')"
  shows "mset (map s_offer_id stocks) = mset C"
proof -
  from assms obtain new where loop: "seller_stocks_loop ip R C [] = (Inr new, C')"
    and st: "stocks = new @ map (\<lambda>i. \<lparr>s_offer_id = i, s_stock = 0\<rparr>) C'"
    by (auto simp: seller_create_stocks_def split: prod.splits sum.splits)
  from seller_stocks_loop_mset [OF loop] have "mset (map s_offer_id new) + mset C' = mset C"
    by auto
  then show ?thesis
    using st by (simp add: comp_def)
qed

lemma seller_create_stocks_rest:
  assumes "seller_create_stocks ip R C = (Inr stocks, C')"
  shows "(C' = C \<longleftrightarrow> (\<forall>w \<in> set R. Kod w \<notin> set C)) \<and>
         (distinct C \<longrightarrow> C' = filter (\<lambda>c. c \<notin> Kod ` set R) C)"
proof -
  from assms obtain new where loop: "seller_stocks_loop ip R C [] = (Inr new, C')"
    by (auto simp: seller_create_stocks_def split: prod.splits sum.splits)
  have "C' = C" if "\<forall>w \<in> set R. Kod w \<notin> set C"
    using seller_stocks_loop_unmatched [OF that, of ip "[]"] loop by simp
  moreover have "C' \<noteq> C" if "\<not> (\<forall>w \<in> set R. Kod w \<notin> set C)"
  proof -
    from that obtain w where "w \<in> set R" "Kod w \<in> set C" by blast
    from seller_stocks_loop_shrinks [OF loop this] show ?thesis by auto
  qed
  moreover have "C' = filter (\<lambda>c. c \<notin> Kod ` set R) C" if "distinct C"
    using seller_stocks_loop_rest [OF loop that] .
  ultimately show ?thesis by blast
qed

lemma seller_create_stocks_matched:
  assumes "Kod w \<in> set C" and "Kod w \<notin> Kod ` set pre"
  shows "(seller_create_stocks ip (pre @ w # post) C = (Inr stocks, C') \<longrightarrow>
            (\<exists>n. quantity_stock ip (Kolichestvo w) = Inr n \<and> \<lparr>s_offer_id = Kod w, s_stock = n\<rparr> \<in> set stocks)) \<and>
         (quantity_stock ip (Kolichestvo w) = Inl e \<longrightarrow>
            fst (seller_create_stocks ip (pre @ w # post) C) = Inl ValueError)"
proof (cases "seller_stocks_loop ip (pre @ w # post) C []")
  case (Pair r ids')
  show ?thesis
  proof (cases r)
    case (Inl e')
    then show ?thesis
      using Pair seller_stocks_loop_matched [OF assms, of ip post "[]" stocks C' e]
      by (auto simp: seller_create_stocks_def)
  next
    case (Inr new)
    then show ?thesis
      using Pair seller_stocks_loop_matched [OF assms, of ip post "[]" new ids' e]
      by (auto simp: seller_create_stocks_def)
  qed
qed

lemma market_stocks_loop_seller:
  "market_stocks_loop ip wh d R ids
     (map (\<lambda>u. \<lparr>sku = s_offer_id u, warehouseId = wh,
                  items = [\<lparr>item_count = s_stock u, item_type = ''FIT'', updatedAt = d\<rparr>]\<rparr>) acc) =
     (map_sum id
        (map (\<lambda>u. \<lparr>sku = s_offer_id u, warehouseId = wh,
                     items = [\<lparr>item_count = s_stock u, item_type = ''FIT'', updatedAt = d\<rparr>]\<rparr>))
        (fst (seller_stocks_loop ip R ids acc)),
      snd (seller_stocks_loop ip R ids acc))"
proof (induction R arbitrary: ids acc)
  case Nil
  then show ?case by simp
next
  case (Cons w ws)
  show ?case
  proof (cases "Kod w \<in> set ids")
    case True
    show ?thesis
    proof (cases "quantity_stock ip (Kolichestvo w)")
      case (Inl e)
      then show ?thesis using True by simp
    next
      case (Inr n)
      show ?thesis
        using True Inr Cons.IH [of "remove1 (Kod w) ids" "acc @ [\<lparr>s_offer_id = Kod w, s_stock = n\<rparr>]"]
        by simp
    qed
  next
    case False
    then show ?thesis using Cons.IH [of ids acc] by simp
  qed
qed

lemma market_create_stocks_seller:
  "market_create_stocks ip d R ids wh =
     (map_sum id
        (map (\<lambda>u. \<lparr>sku = s_offer_id u, warehouseId = wh,
                     items = [\<lparr>item_count = s_stock u, item_type = ''FIT'', updatedAt = d\<rparr>]\<rparr>))
        (fst (seller_create_stocks ip R ids)),
      snd (seller_create_stocks ip R ids))"
  using market_stocks_loop_seller [of ip wh d R ids "[]"]
  by (auto simp: market_create_stocks_def seller_create_stocks_def comp_def split: prod.splits sum.splits)

lemma market_create_stocks_returns:
  assumes "market_create_stocks ip d R ids wh = (Inr mstocks, ids')"
  shows "\<exists>stocks. seller_create_stocks ip R ids = (Inr stocks, ids') \<and>
           mstocks = map (\<lambda>u. \<lparr>sku = s_offer_id u, warehouseId = wh,
                     items = [\<lparr>item_count = s_stock u, item_type = ''FIT'', updatedAt = d\<rparr>]\<rparr>) stocks"
  using assms unfolding market_create_stocks_seller
  by (cases "seller_create_stocks ip R ids"; cases "fst (seller_create_stocks ip R ids)") auto





section \<open>Properties of the paginator\<close>

lemma fetched_length: "fetched fetch world k = Some (pages, last_id, world') \<Longrightarrow> length pages = k"
  by (induction k arbitrary: pages last_id world') (auto split: option.splits prod.splits sum.splits)

lemma fetched_Suc:
  assumes "fetched fetch world (Suc j) = Some (pages', last_id', world'')"
  shows "\<exists>pages last_id world' p.
           fetched fetch world j = Some (pages, last_id, world') \<and>
           fetch world' last_id = (Inr p, world'') \<and>
           pages' = pages @ [p] \<and> last_id' = page_last_id p"
  using assms by (auto split: option.splits prod.splits sum.splits)

lemma fetched_prefix:
  "fetched fetch world k = Some (pages, last_id, world') \<Longrightarrow> j \<le> k \<Longrightarrow>
   \<exists>last_id_j world_j. fetched fetch world j = Some (take j pages, last_id_j, world_j)"
proof (induction k arbitrary: pages last_id world')
  case 0
  then show ?case by simp
next
  case (Suc k)
  from fetched_Suc [OF Suc.prems(1)] obtain ps l w p where
    k: "fetched fetch world k = Some (ps, l, w)" and pages: "pages = ps @ [p]"
    by blast
  have len: "length ps = k"
    using fetched_length [OF k] .
  show ?case
  proof (cases "j = Suc k")
    case True
    then show ?thesis
      using Suc.prems(1) fetched_length [OF Suc.prems(1)] by simp
  next
    case False
    then have "j \<le> k" using Suc.prems(2) by simp
    from Suc.IH [OF k this] show ?thesis
      using pages len \<open>j \<le> k\<close> by simp
  qed
qed

lemma accumulated_snoc: "accumulated (pages @ [p]) = accumulated pages @ page_items p"
  by (simp add: accumulated_def)

lemma complete_snoc:
  "complete (pages @ [p]) \<longleftrightarrow> page_total p = int (length (accumulated pages @ page_items p))"
  by (simp add: complete_def accumulated_def)

lemma offer_ids_loop_run:
  assumes "fetched fetch world m = Some (pages, last_id, world')"
    and "complete pages"
    and "\<forall>i. j < i \<and> i < m \<longrightarrow> \<not> complete (take i pages)"
    and "j < m"
    and "fetched fetch world j = Some (pages_j, last_id_j, world_j)"
  shows "offer_ids_loop fetch world_j last_id_j (accumulated pages_j) = Some (Inr (accumulated pages), world')"
  using assms(3,4,5)
proof (induction "m - j" arbitrary: j pages_j last_id_j world_j)
  case 0
  then show ?case by simp
next
  case (Suc d)
  have m: "length pages = m"
    using fetched_length [OF assms(1)] .
  from fetched_prefix [OF assms(1), of "Suc j"] Suc.prems(2) obtain l1 w1 where
    next_state: "fetched fetch world (Suc j) = Some (take (Suc j) pages, l1, w1)"
    by auto
  from fetched_Suc [OF this] Suc.prems(3) obtain p where
    step: "fetch world_j last_id_j = (Inr p, w1)" and tk: "take (Suc j) pages = pages_j @ [p]"
    and l1: "l1 = page_last_id p"
    by auto
  show ?case
  proof (cases "Suc j = m")
    case True
    then have "pages = pages_j @ [p]"
      using tk m by simp
    moreover have "w1 = world'"
      using next_state assms(1) True by simp
    ultimately show ?thesis
      using assms(2) step
      by (subst offer_ids_loop.simps) (simp add: complete_snoc accumulated_snoc)
  next
    case False
    then have lt: "Suc j < m" using Suc.prems(2) by simp
    then have "\<not> complete (take (Suc j) pages)"
      using Suc.prems(1) by simp
    then have nc: "page_total p \<noteq> int (length (accumulated pages_j @ page_items p))"
      unfolding tk by (simp add: complete_snoc)
    have "offer_ids_loop fetch w1 l1 (accumulated (take (Suc j) pages)) = Some (Inr (accumulated pages), world')"
    proof (rule Suc.hyps(1))
      show "d = m - Suc j" using Suc.hyps(2) by simp
      show "\<forall>i. Suc j < i \<and> i < m \<longrightarrow> \<not> complete (take i pages)"
        using Suc.prems(1) by simp
      show "Suc j < m" by (rule lt)
      show "fetched fetch world (Suc j) = Some (take (Suc j) pages, l1, w1)"
        by (rule next_state)
    qed
    then show ?thesis
      using step nc l1 unfolding tk
      by (subst offer_ids_loop.simps) (simp add: accumulated_snoc)
  qed
qed

section \<open>The price parser\<close>

text \<open>
  Claim C4 says that \<^verbatim>\<open>price_conversion\<close> returns, for every price text, the
  non-negative integer that the digits before the first full stop read as. It returns
  a string: for a text without a digit the empty string, which no integer is read from
  (\<^verbatim>\<open>int\<close> of it raises), and for \<^verbatim>\<open>"007.50"\<close> the string \<^verbatim>\<open>"007"\<close>, which
  \<^verbatim>\<open>seller.create_prices\<close> sends as it is.
\<close>

theorem price_conversion_string_counterexample:
  "price_conversion ''n/a'' = [] \<and>
   (\<forall>ip. py_int ip (price_conversion ''n/a'') = Inl ValueError) \<and>
   fst (seller_create_prices [\<lparr>Kod = ''A'', Kolichestvo = ''5'', Tsena = ''007.50''\<rparr>] [''A''])
     = [\<lparr>auto_action_enabled = ''UNKNOWN'', currency_code = ''RUB'', p_offer_id = ''A'',
         old_price = ''0'', p_price = ''007''\<rparr>]"
  by (simp add: seller_create_prices_def price_conversion_eq is_digit_def py_int_empty)

text \<open>
  Claim C4, amended. For every price text \<open>s\<close>, \<^verbatim>\<open>price_conversion\<close> returns a string:
  the ASCII digits of the part of \<open>s\<close> before its first full stop (of all of \<open>s\<close>
  when it has none), in their order, every other character deleted. What follows the
  first full stop is cut off, never rounded. \<^verbatim>\<open>seller.create_prices\<close> puts this string
  into the update. \<^verbatim>\<open>market.create_prices\<close> passes it to \<^verbatim>\<open>int\<close>, which gives the
  non-negative integer that the digits read as in base 10 when there is a digit and
  there are no more digits than the interpreter's limit, and raises otherwise. The
  price of 5990 roubles in the docstring (an apostrophe after the 5, two decimals, the
  currency in Cyrillic and a closing full stop) gives \<^verbatim>\<open>"5990"\<close>, read as 5990.
\<close>

theorem price_conversion_parse:
  "price_conversion s = filter is_digit (takeWhile (\<lambda>c. c \<noteq> CHR ''.'') s) \<and>
   py_int ip (price_conversion s) =
     (if price_conversion s = [] \<or> exceeds_limit ip (length (price_conversion s)) then Inl ValueError
      else Inr (int (decimal_value (filter is_digit (takeWhile (\<lambda>c. c \<noteq> CHR ''.'') s))))) \<and>
   (CHR ''.'' \<notin> set a \<longrightarrow> price_conversion (a @ CHR ''.'' # b) = price_conversion a) \<and>
   price_conversion (''5'' @ [CHR 0x27] @ ''990.00 ''
       @ [CHR 0xD1, CHR 0x80, CHR 0xD1, CHR 0x83, CHR 0xD0, CHR 0xB1] @ ''.'') = ''5990'' \<and>
   py_int ip ''5990'' = Inr 5990 \<and>
   seller_create_prices [w] [Kod w]
     = ([\<lparr>auto_action_enabled = ''UNKNOWN'', currency_code = ''RUB'', p_offer_id = Kod w,
          old_price = ''0'',
          p_price = filter is_digit (takeWhile (\<lambda>c. c \<noteq> CHR ''.'') (Tsena w))\<rparr>], [Kod w]) \<and>
   fst (market_create_prices ip [w] [Kod w])
     = (if price_conversion (Tsena w) = [] \<or> exceeds_limit ip (length (price_conversion (Tsena w)))
        then Inl ValueError
        else Inr [\<lparr>mp_id = Kod w,
                   mp_price = \<lparr>pv_value = int (decimal_value (price_conversion (Tsena w))),
                               currencyId = ''RUR''\<rparr>\<rparr>])"
proof -
  have 1: "price_conversion s = filter is_digit (takeWhile (\<lambda>c. c \<noteq> CHR ''.'') s)"
    by (rule price_conversion_eq)
  have int_of: "py_int ip (price_conversion t) =
     (if price_conversion t = [] \<or> exceeds_limit ip (length (price_conversion t)) then Inl ValueError
      else Inr (int (decimal_value (price_conversion t))))" for t
  proof (cases "price_conversion t = []")
    case True
    then show ?thesis by (simp add: py_int_empty)
  next
    case False
    have "\<forall>c \<in> set (price_conversion t). is_digit c"
      by (simp add: price_conversion_eq)
    from py_int_digits [OF this False, of ip] False show ?thesis
      by simp
  qed
  have 2: "py_int ip (price_conversion s) =
     (if price_conversion s = [] \<or> exceeds_limit ip (length (price_conversion s)) then Inl ValueError
      else Inr (int (decimal_value (filter is_digit (takeWhile (\<lambda>c. c \<noteq> CHR ''.'') s)))))"
    using int_of [of s] by (simp only: price_conversion_eq)
  have 3: "CHR ''.'' \<notin> set a \<longrightarrow> price_conversion (a @ CHR ''.'' # b) = price_conversion a"
  proof
    assume a: "CHR ''.'' \<notin> set a"
    then have e1: "takeWhile (\<lambda>c. c \<noteq> CHR ''.'') (a @ CHR ''.'' # b) = a"
      by (intro takeWhile_stop) auto
    have e2: "takeWhile (\<lambda>c. c \<noteq> CHR ''.'') a = a"
      using a by (auto simp: takeWhile_eq_all_conv)
    show "price_conversion (a @ CHR ''.'' # b) = price_conversion a"
      unfolding price_conversion_eq e1 e2 by (rule refl)
  qed
  have 4: "price_conversion (''5'' @ [CHR 0x27] @ ''990.00 ''
       @ [CHR 0xD1, CHR 0x80, CHR 0xD1, CHR 0x83, CHR 0xD0, CHR 0xB1] @ ''.'') = ''5990''"
    by (simp add: price_conversion_eq is_digit_def)
  have 5: "py_int ip ''5990'' = Inr 5990"
    by (simp add: py_int_def ascii_form_def ascii_text_def exceeds_limit_def strip_def is_space_def
        is_digit_def digit_val_def)
  have 6: "seller_create_prices [w] [Kod w]
     = ([\<lparr>auto_action_enabled = ''UNKNOWN'', currency_code = ''RUB'', p_offer_id = Kod w,
          old_price = ''0'',
          p_price = filter is_digit (takeWhile (\<lambda>c. c \<noteq> CHR ''.'') (Tsena w))\<rparr>], [Kod w])"
    by (simp add: seller_create_prices_def price_conversion_eq)
  have 7: "fst (market_create_prices ip [w] [Kod w])
     = (if price_conversion (Tsena w) = [] \<or> exceeds_limit ip (length (price_conversion (Tsena w)))
        then Inl ValueError
        else Inr [\<lparr>mp_id = Kod w,
                   mp_price = \<lparr>pv_value = int (decimal_value (price_conversion (Tsena w))),
                               currencyId = ''RUR''\<rparr>\<rparr>])"
    unfolding market_create_prices_def using int_of [of "Tsena w"] by simp
  show ?thesis
    by (intro conjI 1 2 3 4 5 6 7)
qed

theorem price_conversion_parse_witness:
  "\<forall>ip. price_conversion ''12.99'' = ''12'' \<and> py_int ip (price_conversion ''12.99'') = Inr 12 \<and>
   price_conversion (''1200 '' @ CHR ''.'' # ''50'') = price_conversion ''1200 ''"
  (is "\<forall>ip. ?P ip")
proof
  fix ip
  note t = price_conversion_parse [where ip = ip and s = "''12.99''" and a = "''1200 ''" and b = "''50''"]
  have d: "filter is_digit (takeWhile (\<lambda>c. c \<noteq> CHR ''.'') ''12.99'') = ''12''"
    by (simp add: is_digit_def)
  have 1: "price_conversion ''12.99'' = ''12''"
    using t [THEN conjunct1] d by simp
  have v: "decimal_value ''12'' = 12"
    by (simp add: decimal_value_def digit_val_def)
  have 2: "py_int ip (price_conversion ''12.99'') = Inr 12"
    using t [THEN conjunct2, THEN conjunct1] 1 d v by (simp add: exceeds_limit_def)
  have dot: "CHR ''.'' \<notin> set ''1200 ''"
    by simp
  have 3: "price_conversion (''1200 '' @ CHR ''.'' # ''50'') = price_conversion ''1200 ''"
    using t [THEN conjunct2, THEN conjunct2, THEN conjunct1] dot by (rule mp)
  show "?P ip"
    using 1 2 3 by (intro conjI)
qed

section \<open>Batches\<close>

text \<open>
  Claim C6. For every list \<open>xs\<close> and every size \<open>n > 0\<close>, \<^verbatim>\<open>divide\<close> yields
  \<open>\<lceil>length xs / n\<rceil>\<close> batches whose concatenation is \<open>xs\<close>, in order; every batch
  but the last has exactly \<open>n\<close> elements, and for a non-empty \<open>xs\<close> the last batch has
  between 1 and \<open>n\<close>.
\<close>

theorem divide_chunks:
  assumes "0 < n"
  shows "\<exists>bs. divide xs n = Inr bs \<and>
           int (length bs) = \<lceil>real (length xs) / real_of_int n\<rceil> \<and>
           concat bs = xs \<and>
           (\<forall>b \<in> set (butlast bs). int (length b) = n) \<and>
           (xs \<noteq> [] \<longrightarrow> bs \<noteq> [] \<and> 1 \<le> length (last bs) \<and> int (length (last bs)) \<le> n)"
proof -
  let ?bs = "map (\<lambda>i. py_slice xs i (i + n)) (range_from 0 (int (length xs)) n)"
  have d: "divide xs n = Inr ?bs"
    using assms by (simp add: divide_def py_range_def)
  have len: "int (length ?bs) = \<lceil>real (length xs) / real_of_int n\<rceil>"
  proof -
    have "0 \<le> - ((0 - int (length xs)) div n)"
      using assms div_nonpos_pos_le0 [of "0 - int (length xs)" n] by simp
    then show ?thesis
      using assms by (simp add: range_from_length ceiling_as_div)
  qed
  have cat: "concat ?bs = xs"
    using range_from_concat [of n 0 xs] assms by simp
  have ls: "(\<forall>b \<in> set (butlast ?bs). int (length b) = n) \<and>
            (?bs \<noteq> [] \<longrightarrow> 1 \<le> length (last ?bs) \<and> int (length (last ?bs)) \<le> n) \<and>
            (0 < int (length xs) \<longrightarrow> ?bs \<noteq> [])"
    using chunk_lengths [of n 0 ?bs xs] assms by simp
  then have "xs \<noteq> [] \<longrightarrow> ?bs \<noteq> [] \<and> 1 \<le> length (last ?bs) \<and> int (length (last ?bs)) \<le> n"
    by simp
  with d len cat ls show ?thesis by blast
qed

theorem divide_chunks_witness:
  "(0::int) < 2 \<and> divide [1::nat, 2, 3, 4, 5] 2 = Inr [[1, 2], [3, 4], [5]] \<and>
   (\<exists>bs. divide [1::nat, 2, 3, 4, 5] 2 = Inr bs \<and> int (length bs) = 3 \<and> concat bs = [1, 2, 3, 4, 5])"
proof -
  have pos: "(0::int) < 2" by simp
  have c: "\<lceil>real (length [1::nat, 2, 3, 4, 5]) / real_of_int 2\<rceil> = 3"
    by (simp add: ceiling_as_div)
  from divide_chunks [OF pos, of "[1::nat, 2, 3, 4, 5]"] c
  have "\<exists>bs. divide [1::nat, 2, 3, 4, 5] 2 = Inr bs \<and> int (length bs) = 3 \<and> concat bs = [1, 2, 3, 4, 5]"
    by auto
  moreover have "divide [1::nat, 2, 3, 4, 5] 2 = Inr [[1, 2], [3, 4], [5]]"
    by (simp add: divide_def py_range_def range_from.simps py_slice_def slice_bound_def)
  ultimately show ?thesis by simp
qed

text \<open>
  Claim C7 says that a size \<open>n \<le> 0\<close> is always an error. With a negative size the
  range of start indices is empty, and \<^verbatim>\<open>divide\<close> yields no batch and raises nothing.
\<close>

theorem divide_negative_counterexample: "divide [1::nat, 2, 3] (- 1) = Inr []"
  by (simp add: divide_def py_range_def range_from.simps)

text \<open>
  Claim C7, amended. For every list and every size \<open>n \<le> 0\<close>: a size of 0 raises
  \<^verbatim>\<open>ValueError\<close> (from \<^verbatim>\<open>range\<close>, when the generator is first advanced), and a
  negative size yields no batch at all, whatever the list, without an error.
\<close>

theorem divide_nonpositive:
  "n \<le> 0 \<Longrightarrow> divide xs n = (if n = 0 then Inl ValueError else Inr [])"
  by (simp add: divide_def py_range_def range_from_neg)

theorem divide_nonpositive_witness:
  "divide [1::nat, 2, 3] 0 = Inl ValueError \<and> divide [1::nat, 2, 3] (- 2) = Inr []"
  using divide_nonpositive [of 0 "[1::nat, 2, 3]"] divide_nonpositive [of "- 2" "[1::nat, 2, 3]"]
  by simp

section \<open>Stock reconciliation\<close>

text \<open>
  Claim C1. The catalogue's offer ids are a set, held in a list \<open>C\<close> without
  repetition. For every such \<open>C\<close> and every list \<open>R\<close> of supplier rows, the offer ids
  of the stock updates that \<^verbatim>\<open>create_stocks\<close> returns (in either module) are exactly
  the ids of \<open>C\<close>, and no id occurs in two updates. Each update either carries the
  code and the computed count of a row of the feed, or carries an id that no row has,
  with the count 0; in \<^verbatim>\<open>market.py\<close> the update is the dictionary with this id, the
  warehouse, and one item with this count, the type \<^verbatim>\<open>FIT\<close> and the time stamp. The
  call returns whenever the quantity of every row whose code is in the catalogue can be
  read.
\<close>

theorem create_stocks_complete:
  assumes "distinct C"
  shows "(seller_create_stocks ip R C = (Inr stocks, C') \<longrightarrow>
            set (map s_offer_id stocks) = set C \<and> distinct (map s_offer_id stocks) \<and>
            (\<forall>u \<in> set stocks.
               (\<exists>w \<in> set R. s_offer_id u = Kod w \<and> quantity_stock ip (Kolichestvo w) = Inr (s_stock u)) \<or>
               (s_offer_id u \<notin> Kod ` set R \<and> s_stock u = 0))) \<and>
         (market_create_stocks ip date R C warehouse_id = (Inr mstocks, C'') \<longrightarrow>
            set (map sku mstocks) = set C \<and> distinct (map sku mstocks) \<and>
            (\<forall>u \<in> set mstocks. \<exists>n.
               u = \<lparr>sku = sku u, warehouseId = warehouse_id,
                    items = [\<lparr>item_count = n, item_type = ''FIT'', updatedAt = date\<rparr>]\<rparr> \<and>
               ((\<exists>w \<in> set R. sku u = Kod w \<and> quantity_stock ip (Kolichestvo w) = Inr n) \<or>
                (sku u \<notin> Kod ` set R \<and> n = 0)))) \<and>
         ((\<forall>w \<in> set R. Kod w \<in> set C \<longrightarrow> (\<exists>n. quantity_stock ip (Kolichestvo w) = Inr n)) \<longrightarrow>
            (\<exists>stocks C'. seller_create_stocks ip R C = (Inr stocks, C')) \<and>
            (\<exists>mstocks C''. market_create_stocks ip date R C warehouse_id = (Inr mstocks, C'')))"
proof -
  have seller: "set (map s_offer_id st) = set C \<and> distinct (map s_offer_id st) \<and>
            (\<forall>u \<in> set st.
               (\<exists>w \<in> set R. s_offer_id u = Kod w \<and> quantity_stock ip (Kolichestvo w) = Inr (s_stock u)) \<or>
               (s_offer_id u \<notin> Kod ` set R \<and> s_stock u = 0))"
    if run: "seller_create_stocks ip R C = (Inr st, ids')" for st ids'
  proof -
    from run obtain new where loop: "seller_stocks_loop ip R C [] = (Inr new, ids')"
      and st: "st = new @ map (\<lambda>i. \<lparr>s_offer_id = i, s_stock = 0\<rparr>) ids'"
      by (auto simp: seller_create_stocks_def split: prod.splits sum.splits)
    from seller_stocks_loop_mset [OF loop]
    have from_feed: "\<forall>u \<in> set new. \<exists>w \<in> set R. s_offer_id u = Kod w \<and>
        quantity_stock ip (Kolichestvo w) = Inr (s_stock u)"
      by auto
    have ms: "mset (map s_offer_id st) = mset C"
      using seller_create_stocks_perm [OF run] .
    have rest: "ids' = filter (\<lambda>c. c \<notin> Kod ` set R) C"
      using seller_stocks_loop_rest [OF loop assms] .
    have 1: "set (map s_offer_id st) = set C"
      using ms by (rule mset_eq_setD)
    have 2: "distinct (map s_offer_id st)"
      using ms assms by (metis mset_eq_imp_distinct_iff)
    have 3: "\<forall>u \<in> set st.
               (\<exists>w \<in> set R. s_offer_id u = Kod w \<and> quantity_stock ip (Kolichestvo w) = Inr (s_stock u)) \<or>
               (s_offer_id u \<notin> Kod ` set R \<and> s_stock u = 0)"
      using from_feed st rest by auto
    show ?thesis using 1 2 3 by blast
  qed
  have market: "set (map sku ms) = set C \<and> distinct (map sku ms) \<and>
            (\<forall>u \<in> set ms. \<exists>n.
               u = \<lparr>sku = sku u, warehouseId = warehouse_id,
                    items = [\<lparr>item_count = n, item_type = ''FIT'', updatedAt = date\<rparr>]\<rparr> \<and>
               ((\<exists>w \<in> set R. sku u = Kod w \<and> quantity_stock ip (Kolichestvo w) = Inr n) \<or>
                (sku u \<notin> Kod ` set R \<and> n = 0)))"
    if run: "market_create_stocks ip date R C warehouse_id = (Inr ms, ids')" for ms ids'
  proof -
    let ?f = "\<lambda>u. \<lparr>sku = s_offer_id u, warehouseId = warehouse_id,
                  items = [\<lparr>item_count = s_stock u, item_type = ''FIT'', updatedAt = date\<rparr>]\<rparr>"
    from market_create_stocks_returns [OF run] obtain st where
      s: "seller_create_stocks ip R C = (Inr st, ids')" and ms: "ms = map ?f st"
      by blast
    have sk: "map sku ms = map s_offer_id st"
      using ms by (simp add: comp_def)
    have "\<forall>u \<in> set ms. \<exists>n.
               u = \<lparr>sku = sku u, warehouseId = warehouse_id,
                    items = [\<lparr>item_count = n, item_type = ''FIT'', updatedAt = date\<rparr>]\<rparr> \<and>
               ((\<exists>w \<in> set R. sku u = Kod w \<and> quantity_stock ip (Kolichestvo w) = Inr n) \<or>
                (sku u \<notin> Kod ` set R \<and> n = 0))"
    proof
      fix u assume "u \<in> set ms"
      then obtain v where v: "v \<in> set st" "u = ?f v" using ms by auto
      then have "sku u = s_offer_id v" by simp
      then show "\<exists>n.
               u = \<lparr>sku = sku u, warehouseId = warehouse_id,
                    items = [\<lparr>item_count = n, item_type = ''FIT'', updatedAt = date\<rparr>]\<rparr> \<and>
               ((\<exists>w \<in> set R. sku u = Kod w \<and> quantity_stock ip (Kolichestvo w) = Inr n) \<or>
                (sku u \<notin> Kod ` set R \<and> n = 0))"
        using seller [OF s] v by (intro exI [of _ "s_stock v"]) auto
    qed
    then show ?thesis using seller [OF s] sk by simp
  qed
  have total: "(\<exists>stocks C'. seller_create_stocks ip R C = (Inr stocks, C')) \<and>
            (\<exists>mstocks C''. market_create_stocks ip date R C warehouse_id = (Inr mstocks, C''))"
    if ok: "\<forall>w \<in> set R. Kod w \<in> set C \<longrightarrow> (\<exists>n. quantity_stock ip (Kolichestvo w) = Inr n)"
  proof -
    from seller_stocks_loop_total [OF ok, of "[]"] obtain new ids' where
      "seller_stocks_loop ip R C [] = (Inr new, ids')" by blast
    then have s: "\<exists>stocks C'. seller_create_stocks ip R C = (Inr stocks, C')"
      by (simp add: seller_create_stocks_def)
    then show ?thesis
      unfolding market_create_stocks_seller by auto
  qed
  show ?thesis using seller market total by blast
qed

theorem create_stocks_complete_witness:
  "\<forall>ip. distinct [''A'', ''B'', ''C''] \<and>
   seller_create_stocks ip
     [\<lparr>Kod = ''A'', Kolichestvo = ''>10'', Tsena = ''100.00''\<rparr>,
      \<lparr>Kod = ''B'', Kolichestvo = ''1'', Tsena = ''50.00''\<rparr>]
     [''A'', ''B'', ''C'']
     = (Inr [\<lparr>s_offer_id = ''A'', s_stock = 100\<rparr>, \<lparr>s_offer_id = ''B'', s_stock = 0\<rparr>,
             \<lparr>s_offer_id = ''C'', s_stock = 0\<rparr>], [''C'']) \<and>
   set (map s_offer_id [\<lparr>s_offer_id = ''A'', s_stock = 100\<rparr>, \<lparr>s_offer_id = ''B'', s_stock = 0\<rparr>,
             \<lparr>s_offer_id = ''C'', s_stock = 0\<rparr>]) = set [''A'', ''B'', ''C''] \<and>
   (\<exists>mstocks C''. market_create_stocks ip ''2024-01-01T00:00:00Z''
     [\<lparr>Kod = ''A'', Kolichestvo = ''>10'', Tsena = ''100.00''\<rparr>,
      \<lparr>Kod = ''B'', Kolichestvo = ''1'', Tsena = ''50.00''\<rparr>]
     [''A'', ''B'', ''C''] ''wh'' = (Inr mstocks, C''))"
  (is "\<forall>ip. ?P ip")
proof
  fix ip
  let ?R = "[\<lparr>Kod = ''A'', Kolichestvo = ''>10'', Tsena = ''100.00''\<rparr>,
      \<lparr>Kod = ''B'', Kolichestvo = ''1'', Tsena = ''50.00''\<rparr>]"
  let ?S = "[\<lparr>s_offer_id = ''A'', s_stock = 100\<rparr>, \<lparr>s_offer_id = ''B'', s_stock = 0\<rparr>,
             \<lparr>s_offer_id = ''C'', s_stock = 0\<rparr>]"
  have d: "distinct [''A'', ''B'', ''C'']"
    by simp
  have run: "seller_create_stocks ip ?R [''A'', ''B'', ''C''] = (Inr ?S, [''C''])"
    by (simp add: seller_create_stocks_def quantity_stock_def)
  have q: "\<forall>w \<in> set ?R. Kod w \<in> set [''A'', ''B'', ''C''] \<longrightarrow> (\<exists>n. quantity_stock ip (Kolichestvo w) = Inr n)"
    by (simp add: quantity_stock_def)
  from create_stocks_complete [OF d, where ip = ip and R = ?R and stocks = ?S and C' = "[''C'']"
      and date = "''2024-01-01T00:00:00Z''" and warehouse_id = "''wh''"] run q
  have "set (map s_offer_id ?S) = set [''A'', ''B'', ''C'']"
    and "\<exists>mstocks C''. market_create_stocks ip ''2024-01-01T00:00:00Z'' ?R [''A'', ''B'', ''C''] ''wh''
           = (Inr mstocks, C'')"
    by blast+
  with d run show "?P ip"
    by blast
qed

section \<open>Rows with the same code\<close>

text \<open>
  Claim C2 says that of several rows with one code of the catalogue only the first
  gives a price update. \<^verbatim>\<open>create_prices\<close> removes nothing from the list of ids, in
  either module, so each of the rows gives a price update of its own.
\<close>

theorem duplicate_prices_counterexample:
  "\<forall>ip. fst (seller_create_prices
      [\<lparr>Kod = ''A'', Kolichestvo = ''5'', Tsena = ''100.00''\<rparr>,
       \<lparr>Kod = ''A'', Kolichestvo = ''7'', Tsena = ''200.00''\<rparr>] [''A''])
     = [\<lparr>auto_action_enabled = ''UNKNOWN'', currency_code = ''RUB'', p_offer_id = ''A'',
         old_price = ''0'', p_price = ''100''\<rparr>,
        \<lparr>auto_action_enabled = ''UNKNOWN'', currency_code = ''RUB'', p_offer_id = ''A'',
         old_price = ''0'', p_price = ''200''\<rparr>] \<and>
   fst (market_create_prices ip
      [\<lparr>Kod = ''A'', Kolichestvo = ''5'', Tsena = ''100.00''\<rparr>,
       \<lparr>Kod = ''A'', Kolichestvo = ''7'', Tsena = ''200.00''\<rparr>] [''A''])
     = Inr [\<lparr>mp_id = ''A'', mp_price = \<lparr>pv_value = 100, currencyId = ''RUR''\<rparr>\<rparr>,
            \<lparr>mp_id = ''A'', mp_price = \<lparr>pv_value = 200, currencyId = ''RUR''\<rparr>\<rparr>]"
  by (simp add: seller_create_prices_def market_create_prices_def price_conversion_eq py_int_def
      ascii_form_def ascii_text_def exceeds_limit_def strip_def is_digit_def is_space_def digit_val_def)

text \<open>
  Claim C2, amended. Let \<open>C\<close> hold the catalogue's ids once each, and let \<open>w\<close> be the
  first row of the feed with its code, a code of \<open>C\<close>. When \<^verbatim>\<open>create_stocks\<close>
  returns, it returns exactly one stock update for that code, computed from \<open>w\<close>. A
  later row \<open>d\<close> with the same code is passed over unread: the call behaves as on the
  feed without \<open>d\<close>, so \<open>d\<close> gives no update and no error. \<^verbatim>\<open>create_prices\<close> returns
  one price update for the code per row that carries it, in the order of the feed, each
  from its own row, and leaves the list of ids as it was; so does
  \<^verbatim>\<open>market.create_prices\<close> whenever it returns.
\<close>

theorem duplicate_records:
  assumes "distinct C" and "Kod w \<in> set C" and "Kod w \<notin> Kod ` set pre"
  shows "(seller_create_stocks ip (pre @ w # post) C = (Inr stocks, C') \<longrightarrow>
            (\<exists>n. quantity_stock ip (Kolichestvo w) = Inr n \<and>
                 filter (\<lambda>u. s_offer_id u = Kod w) stocks = [\<lparr>s_offer_id = Kod w, s_stock = n\<rparr>])) \<and>
         (Kod d = Kod w \<longrightarrow>
            seller_create_stocks ip (pre @ w # mid @ d # rest) C = seller_create_stocks ip (pre @ w # mid @ rest) C) \<and>
         filter (\<lambda>p. p_offer_id p = Kod w) (fst (seller_create_prices (pre @ w # post) C))
           = map (\<lambda>r. \<lparr>auto_action_enabled = ''UNKNOWN'', currency_code = ''RUB'',
                        p_offer_id = Kod r, old_price = ''0'',
                        p_price = price_conversion (Tsena r)\<rparr>)
               (filter (\<lambda>r. Kod r = Kod w) (pre @ w # post)) \<and>
         snd (seller_create_prices (pre @ w # post) C) = C \<and>
         (fst (market_create_prices ip (pre @ w # post) C) = Inr mprices \<longrightarrow>
            map mp_id (filter (\<lambda>p. mp_id p = Kod w) mprices)
              = map Kod (filter (\<lambda>r. Kod r = Kod w) (pre @ w # post)))"
proof -
  have one: "\<exists>n. quantity_stock ip (Kolichestvo w) = Inr n \<and>
                 filter (\<lambda>u. s_offer_id u = Kod w) stocks = [\<lparr>s_offer_id = Kod w, s_stock = n\<rparr>]"
    if run: "seller_create_stocks ip (pre @ w # post) C = (Inr stocks, C')"
  proof -
    from seller_create_stocks_matched [OF assms(2,3), of ip post stocks C'] run
    obtain n where n: "quantity_stock ip (Kolichestvo w) = Inr n"
      and mem: "\<lparr>s_offer_id = Kod w, s_stock = n\<rparr> \<in> set stocks"
      by blast
    have "distinct (map s_offer_id stocks)"
      using seller_create_stocks_perm [OF run] assms(1) by (metis mset_eq_imp_distinct_iff)
    from filter_single [OF this mem] n show ?thesis
      by simp
  qed
  have skip: "seller_create_stocks ip (pre @ w # mid @ d # rest) C = seller_create_stocks ip (pre @ w # mid @ rest) C"
    if "Kod d = Kod w"
  proof -
    have "Kod d \<in> Kod ` set (pre @ w # mid)"
      using that by simp
    from seller_stocks_loop_skip [OF assms(1) this, of ip rest "[]"] show ?thesis
      by (simp add: seller_create_stocks_def)
  qed
  have prices: "filter (\<lambda>p. p_offer_id p = Kod w) (fst (seller_create_prices (pre @ w # post) C))
           = map (\<lambda>r. \<lparr>auto_action_enabled = ''UNKNOWN'', currency_code = ''RUB'',
                        p_offer_id = Kod r, old_price = ''0'',
                        p_price = price_conversion (Tsena r)\<rparr>)
               (filter (\<lambda>r. Kod r = Kod w) (pre @ w # post))"
  proof -
    have f: "filter (\<lambda>x. Kod x \<in> set C \<and> Kod x = Kod w) L = filter (\<lambda>r. Kod r = Kod w) L" for L
      using assms(2) by (intro filter_cong) auto
    show ?thesis
      by (simp add: seller_create_prices_def seller_prices_loop_eq filter_map comp_def f del: filter_append)
  qed
  have same: "snd (seller_create_prices (pre @ w # post) C) = C"
    by (simp add: seller_create_prices_def seller_prices_loop_eq)
  have mprices: "map mp_id (filter (\<lambda>p. mp_id p = Kod w) mprices)
              = map Kod (filter (\<lambda>r. Kod r = Kod w) (pre @ w # post))"
    if run: "fst (market_create_prices ip (pre @ w # post) C) = Inr mprices"
  proof -
    have "market_prices_loop ip (pre @ w # post) C [] = (Inr mprices, snd (market_prices_loop ip (pre @ w # post) C []))"
      using run by (simp add: market_create_prices_def prod_eq_iff)
    from market_prices_loop_ok [OF this]
    have ids: "map mp_id mprices = map Kod (filter (\<lambda>w. Kod w \<in> set C) (pre @ w # post))"
      by simp
    have "map mp_id (filter (\<lambda>p. mp_id p = Kod w) mprices) = filter (\<lambda>i. i = Kod w) (map mp_id mprices)"
      by (simp add: filter_map comp_def)
    also have "\<dots> = filter (\<lambda>i. i = Kod w) (map Kod (filter (\<lambda>w. Kod w \<in> set C) (pre @ w # post)))"
      by (simp only: ids)
    also have "\<dots> = map Kod (filter (\<lambda>r. Kod r = Kod w) (filter (\<lambda>w. Kod w \<in> set C) (pre @ w # post)))"
      by (simp add: filter_map comp_def del: filter_append)
    also have "filter (\<lambda>r. Kod r = Kod w) (filter (\<lambda>w. Kod w \<in> set C) (pre @ w # post))
                 = filter (\<lambda>r. Kod r = Kod w) (pre @ w # post)"
      unfolding filter_filter using assms(2) by (intro filter_cong) auto
    finally show ?thesis .
  qed
  show ?thesis
    using one skip prices same mprices by blast
qed

theorem duplicate_records_witness:
  "\<forall>ip. seller_create_stocks ip
     [\<lparr>Kod = ''A'', Kolichestvo = ''5'', Tsena = ''100.00''\<rparr>,
      \<lparr>Kod = ''A'', Kolichestvo = ''abc'', Tsena = ''200.00''\<rparr>] [''A'']
     = (Inr [\<lparr>s_offer_id = ''A'', s_stock = 5\<rparr>], []) \<and>
   seller_create_stocks ip
     [\<lparr>Kod = ''A'', Kolichestvo = ''5'', Tsena = ''100.00''\<rparr>,
      \<lparr>Kod = ''A'', Kolichestvo = ''abc'', Tsena = ''200.00''\<rparr>] [''A'']
     = seller_create_stocks ip [\<lparr>Kod = ''A'', Kolichestvo = ''5'', Tsena = ''100.00''\<rparr>] [''A''] \<and>
   map p_price (filter (\<lambda>p. p_offer_id p = ''A'') (fst (seller_create_prices
     [\<lparr>Kod = ''A'', Kolichestvo = ''5'', Tsena = ''100.00''\<rparr>,
      \<lparr>Kod = ''A'', Kolichestvo = ''abc'', Tsena = ''200.00''\<rparr>] [''A''])))
     = [''100'', ''200'']"
  (is "\<forall>ip. ?P ip")
proof
  fix ip
  let ?w = "\<lparr>Kod = ''A'', Kolichestvo = ''5'', Tsena = ''100.00''\<rparr>"
  let ?d = "\<lparr>Kod = ''A'', Kolichestvo = ''abc'', Tsena = ''200.00''\<rparr>"
  have h: "distinct [''A'']" "Kod ?w \<in> set [''A'']" "Kod ?w \<notin> Kod ` set []"
    by simp_all
  have q: "quantity_stock ip ''5'' = Inr 5"
    by (simp add: quantity_stock_def py_int_def ascii_form_def ascii_text_def exceeds_limit_def
        strip_def is_digit_def is_space_def digit_val_def)
  have run: "seller_create_stocks ip [?w] [''A''] = (Inr [\<lparr>s_offer_id = ''A'', s_stock = 5\<rparr>], [])"
    by (simp add: seller_create_stocks_def q)
  from duplicate_records [OF h, where ip = ip and post = "[?d]" and d = ?d and mid = "[]" and rest = "[]"]
  have skip: "seller_create_stocks ip [?w, ?d] [''A''] = seller_create_stocks ip [?w] [''A'']"
    and pr: "filter (\<lambda>p. p_offer_id p = ''A'') (fst (seller_create_prices [?w, ?d] [''A'']))
           = map (\<lambda>r. \<lparr>auto_action_enabled = ''UNKNOWN'', currency_code = ''RUB'',
                        p_offer_id = Kod r, old_price = ''0'',
                        p_price = price_conversion (Tsena r)\<rparr>)
               (filter (\<lambda>r. Kod r = ''A'') [?w, ?d])"
    by simp_all
  have "map p_price (filter (\<lambda>p. p_offer_id p = ''A'') (fst (seller_create_prices [?w, ?d] [''A''])))
          = [''100'', ''200'']"
    unfolding pr by (simp add: price_conversion_eq is_digit_def)
  with skip run show "?P ip"
    by simp
qed

section \<open>The caller's list of ids\<close>

text \<open>
  Claim C3 says that neither reconciler changes the list of ids it is given.
  \<^verbatim>\<open>create_stocks\<close> works on the caller's list itself: after a call that matched the
  code \<^verbatim>\<open>A\<close>, the list has lost it.
\<close>

theorem create_stocks_mutates_counterexample:
  "\<forall>ip. snd (seller_create_stocks ip [\<lparr>Kod = ''A'', Kolichestvo = ''>10'', Tsena = ''100.00''\<rparr>] [''A'', ''B''])
     = [''B''] \<and>
   snd (market_create_stocks ip ''2024-01-01T00:00:00Z''
          [\<lparr>Kod = ''A'', Kolichestvo = ''>10'', Tsena = ''100.00''\<rparr>] [''A'', ''B''] ''wh'')
     = [''B'']"
  by (simp add: seller_create_stocks_def market_create_stocks_def quantity_stock_def)

text \<open>
  Claim C3, amended. \<^verbatim>\<open>create_prices\<close> (either module) leaves the caller's list as it
  was. \<^verbatim>\<open>create_stocks\<close> (either module) removes the matched ids from the caller's
  list: when it returns, the list is unchanged exactly when no row of the feed has a
  code of the list, and for a list without repetition it holds, in their order, the
  ids that no row of the feed carries.
\<close>

theorem catalog_list_after_reconcile:
  "snd (seller_create_prices R C) = C \<and>
   snd (market_create_prices ip R C) = C \<and>
   (seller_create_stocks ip R C = (Inr stocks, C') \<longrightarrow>
      (C' = C \<longleftrightarrow> (\<forall>w \<in> set R. Kod w \<notin> set C)) \<and>
      (distinct C \<longrightarrow> C' = filter (\<lambda>c. c \<notin> Kod ` set R) C)) \<and>
   (market_create_stocks ip date R C warehouse_id = (Inr mstocks, C'') \<longrightarrow>
      (C'' = C \<longleftrightarrow> (\<forall>w \<in> set R. Kod w \<notin> set C)) \<and>
      (distinct C \<longrightarrow> C'' = filter (\<lambda>c. c \<notin> Kod ` set R) C))"
proof -
  have 1: "snd (seller_create_prices R C) = C"
    by (simp add: seller_create_prices_def seller_prices_loop_eq)
  have 2: "snd (market_create_prices ip R C) = C"
    by (simp add: market_create_prices_def market_prices_loop_ids)
  have 3: "(C' = C \<longleftrightarrow> (\<forall>w \<in> set R. Kod w \<notin> set C)) \<and>
           (distinct C \<longrightarrow> C' = filter (\<lambda>c. c \<notin> Kod ` set R) C)"
    if "seller_create_stocks ip R C = (Inr stocks, C')"
    using seller_create_stocks_rest [OF that] .
  have 4: "(C'' = C \<longleftrightarrow> (\<forall>w \<in> set R. Kod w \<notin> set C)) \<and>
           (distinct C \<longrightarrow> C'' = filter (\<lambda>c. c \<notin> Kod ` set R) C)"
    if run: "market_create_stocks ip date R C warehouse_id = (Inr mstocks, C'')"
  proof -
    from run obtain st where "seller_create_stocks ip R C = (Inr st, C'')"
      unfolding market_create_stocks_seller
      by (cases "seller_create_stocks ip R C"; cases "fst (seller_create_stocks ip R C)") auto
    from seller_create_stocks_rest [OF this] show ?thesis .
  qed
  show ?thesis using 1 2 3 4 by blast
qed

theorem catalog_list_after_reconcile_witness:
  "\<forall>ip. snd (seller_create_prices [\<lparr>Kod = ''A'', Kolichestvo = ''>10'', Tsena = ''100.00''\<rparr>] [''A'', ''B''])
     = [''A'', ''B''] \<and>
   seller_create_stocks ip [\<lparr>Kod = ''A'', Kolichestvo = ''>10'', Tsena = ''100.00''\<rparr>] [''A'', ''B'']
     = (Inr [\<lparr>s_offer_id = ''A'', s_stock = 100\<rparr>, \<lparr>s_offer_id = ''B'', s_stock = 0\<rparr>],
        filter (\<lambda>c. c \<notin> Kod ` set [\<lparr>Kod = ''A'', Kolichestvo = ''>10'', Tsena = ''100.00''\<rparr>])
          [''A'', ''B'']) \<and>
   [''B''] \<noteq> [''A'', ''B'']"
  (is "\<forall>ip. ?P ip")
proof
  fix ip
  let ?w = "\<lparr>Kod = ''A'', Kolichestvo = ''>10'', Tsena = ''100.00''\<rparr>"
  let ?S = "[\<lparr>s_offer_id = ''A'', s_stock = 100\<rparr>, \<lparr>s_offer_id = ''B'', s_stock = 0\<rparr>]"
  have run: "seller_create_stocks ip [?w] [''A'', ''B''] = (Inr ?S, [''B''])"
    by (simp add: seller_create_stocks_def quantity_stock_def)
  have d: "distinct [''A'', ''B'']"
    by simp
  from catalog_list_after_reconcile [where ip = ip and R = "[?w]" and C = "[''A'', ''B'']"
      and stocks = ?S and C' = "[''B'']"] run d
  have "snd (seller_create_prices [?w] [''A'', ''B'']) = [''A'', ''B'']"
    and "[''B''] = filter (\<lambda>c. c \<notin> Kod ` set [?w]) [''A'', ''B'']"
    by blast+
  with run show "?P ip"
    by simp
qed

section \<open>The count of a matched row\<close>




section \<open>Prices without digits\<close>

text \<open>
  Claim C5 says that a price text with no digit before its first full stop makes
  \<^verbatim>\<open>price_conversion\<close> raise. \<^verbatim>\<open>price_conversion\<close> returns a string whatever it is
  given: for the empty text the empty string, which \<^verbatim>\<open>seller.create_prices\<close> puts
  into the update as it is.
\<close>

theorem price_conversion_empty_counterexample:
  "price_conversion [] = [] \<and>
   seller_create_prices [\<lparr>Kod = ''A'', Kolichestvo = ''5'', Tsena = []\<rparr>] [''A'']
     = ([\<lparr>auto_action_enabled = ''UNKNOWN'', currency_code = ''RUB'', p_offer_id = ''A'',
          old_price = ''0'', p_price = []\<rparr>], [''A''])"
  by (simp add: seller_create_prices_def price_conversion_eq)

text \<open>
  Claim C5, amended. For every price text with no ASCII digit before its first full
  stop, \<^verbatim>\<open>price_conversion\<close> returns the empty string and raises nothing. The error
  comes where the result is passed to \<^verbatim>\<open>int\<close>: \<^verbatim>\<open>market.create_prices\<close> raises
  (\<^verbatim>\<open>ValueError\<close>) as soon as a row with a code of the list has such a price, while
  \<^verbatim>\<open>seller.create_prices\<close> returns an update with the empty price for that row.
\<close>

theorem price_without_digits:
  assumes "filter is_digit (takeWhile (\<lambda>c. c \<noteq> CHR ''.'') s) = []"
  shows "price_conversion s = [] \<and>
         py_int ip (price_conversion s) = Inl ValueError \<and>
         (w \<in> set R \<and> Kod w \<in> set C \<and> Tsena w = s \<longrightarrow>
            fst (market_create_prices ip R C) = Inl ValueError \<and>
            \<lparr>auto_action_enabled = ''UNKNOWN'', currency_code = ''RUB'', p_offer_id = Kod w,
             old_price = ''0'', p_price = []\<rparr> \<in> set (fst (seller_create_prices R C)))"
proof -
  have e: "price_conversion s = []"
    using assms by (simp only: price_conversion_eq)
  have i: "py_int ip (price_conversion s) = Inl ValueError"
    unfolding e by (rule py_int_empty)
  have r: "fst (market_create_prices ip R C) = Inl ValueError \<and>
            \<lparr>auto_action_enabled = ''UNKNOWN'', currency_code = ''RUB'', p_offer_id = Kod w,
             old_price = ''0'', p_price = []\<rparr> \<in> set (fst (seller_create_prices R C))"
    if h: "w \<in> set R \<and> Kod w \<in> set C \<and> Tsena w = s"
  proof -
    have w: "w \<in> set R" "Kod w \<in> set C" "Tsena w = s"
      using h by simp_all
    have "py_int ip (price_conversion (Tsena w)) = Inl ValueError"
      using i w(3) by simp
    from market_prices_loop_error [OF w(1,2) this, of "[]"]
    have m: "fst (market_create_prices ip R C) = Inl ValueError"
      by (simp add: market_create_prices_def)
    have "w \<in> set (filter (\<lambda>w. Kod w \<in> set C) R)"
      using w(1,2) by simp
    then have "\<lparr>auto_action_enabled = ''UNKNOWN'', currency_code = ''RUB'', p_offer_id = Kod w,
             old_price = ''0'', p_price = price_conversion (Tsena w)\<rparr>
        \<in> (\<lambda>w. \<lparr>auto_action_enabled = ''UNKNOWN'', currency_code = ''RUB'',
                       p_offer_id = Kod w, old_price = ''0'',
                       p_price = price_conversion (Tsena w)\<rparr>) ` set (filter (\<lambda>w. Kod w \<in> set C) R)"
      by (rule imageI)
    then have "\<lparr>auto_action_enabled = ''UNKNOWN'', currency_code = ''RUB'', p_offer_id = Kod w,
             old_price = ''0'', p_price = []\<rparr> \<in> set (fst (seller_create_prices R C))"
      using e w(3) by (simp add: seller_create_prices_def seller_prices_loop_eq)
    with m show ?thesis by (rule conjI)
  qed
  show ?thesis
    using e i r by blast
qed

theorem price_without_digits_witness:
  "\<forall>ip. price_conversion '' .50'' = [] \<and>
   fst (market_create_prices ip [\<lparr>Kod = ''A'', Kolichestvo = ''5'', Tsena = '' .50''\<rparr>] [''A''])
     = Inl ValueError"
  (is "\<forall>ip. ?P ip")
proof
  fix ip
  let ?w = "\<lparr>Kod = ''A'', Kolichestvo = ''5'', Tsena = '' .50''\<rparr>"
  have h: "filter is_digit (takeWhile (\<lambda>c. c \<noteq> CHR ''.'') '' .50'') = []"
    by (simp add: is_digit_def)
  have m: "?w \<in> set [?w] \<and> Kod ?w \<in> set [''A''] \<and> Tsena ?w = '' .50''"
    by simp
  note t = price_without_digits [OF h, where ip = ip and w = ?w and R = "[?w]" and C = "[''A'']"]
  have 1: "price_conversion '' .50'' = []"
    using t by (elim conjE)
  have "?w \<in> set [?w] \<and> Kod ?w \<in> set [''A''] \<and> Tsena ?w = '' .50'' \<longrightarrow>
            fst (market_create_prices ip [?w] [''A'']) = Inl ValueError \<and>
            \<lparr>auto_action_enabled = ''UNKNOWN'', currency_code = ''RUB'', p_offer_id = Kod ?w,
             old_price = ''0'', p_price = []\<rparr> \<in> set (fst (seller_create_prices [?w] [''A'']))"
    using t by (elim conjE)
  with m have "fst (market_create_prices ip [?w] [''A'']) = Inl ValueError"
    by (rule rev_mp [THEN conjunct1])
  with 1 show "?P ip" by (rule conjI)
qed

section \<open>The price pass of \<^verbatim>\<open>seller.main\<close>\<close>




section \<open>Paging through the catalogue\<close>

text \<open>
  Claim C9. Take any page-fetch collaborator, in any state of the world. If the pages it
  would send to \<open>k\<close> requests in a row are such that the last one reports as its total
  the number of items accumulated over the \<open>k\<close> pages, then \<^verbatim>\<open>get_offer_ids\<close>
  returns. It returns after the first number \<open>m\<close> of requests at which the
  accumulated count equals the total of the page just received, having made exactly
  these \<open>m\<close> requests (the world it ends in is the world after \<open>m\<close> requests), and
  its result is the offer id of each accumulated item, in order: as many ids as that
  total.
\<close>

theorem get_offer_ids_terminates:
  assumes "fetched fetch world k = Some (pages, last_id, world')" and "complete pages"
  shows "\<exists>m last_id_m world_m.
           0 < m \<and> m \<le> k \<and>
           fetched fetch world m = Some (take m pages, last_id_m, world_m) \<and>
           complete (take m pages) \<and>
           (\<forall>j < m. \<not> complete (take j pages)) \<and>
           get_offer_ids fetch world = Some (Inr (map offer_id (accumulated (take m pages))), world_m) \<and>
           int (length (map offer_id (accumulated (take m pages)))) = page_total (last (take m pages))"
proof -
  have len: "length pages = k"
    using fetched_length [OF assms(1)] .
  define m where "m = (LEAST i. complete (take i pages))"
  have ck: "complete (take k pages)"
    using assms(2) len by simp
  have cm: "complete (take m pages)"
    unfolding m_def using ck by (rule LeastI)
  have mk: "m \<le> k"
    unfolding m_def using ck by (rule Least_le)
  have least: "\<forall>j < m. \<not> complete (take j pages)"
    unfolding m_def using not_less_Least by blast
  have pos: "0 < m"
    using cm by (cases m) (auto simp: complete_def)
  from fetched_prefix [OF assms(1) mk] obtain lm wm where
    fm: "fetched fetch world m = Some (take m pages, lm, wm)"
    by blast
  have "offer_ids_loop fetch world [] (accumulated []) = Some (Inr (accumulated (take m pages)), wm)"
  proof (rule offer_ids_loop_run [OF fm cm _ pos])
    show "\<forall>i. 0 < i \<and> i < m \<longrightarrow> \<not> complete (take i (take m pages))"
      using least by (simp add: min_def)
    show "fetched fetch world 0 = Some ([], [], world)"
      by simp
  qed
  then have g: "get_offer_ids fetch world = Some (Inr (map offer_id (accumulated (take m pages))), wm)"
    by (simp add: get_offer_ids_def accumulated_def)
  have n: "int (length (map offer_id (accumulated (take m pages)))) = page_total (last (take m pages))"
    using cm by (simp add: complete_def)
  show ?thesis
    using pos mk fm cm least g n by blast
qed

theorem get_offer_ids_terminates_witness:
  "get_offer_ids
     (\<lambda>(requests::nat) last_id.
        (if last_id = [] then
           Inr \<lparr>page_items = [\<lparr>offer_id = ''A''\<rparr>], page_total = 2, page_last_id = ''a''\<rparr>
         else if last_id = ''a'' then
           Inr \<lparr>page_items = [\<lparr>offer_id = ''B''\<rparr>], page_total = 2, page_last_id = ''b''\<rparr>
         else Inl TransportError,
         Suc requests))
     0
   = Some (Inr [''A'', ''B''], 2)"
proof -
  let ?pA = "\<lparr>page_items = [\<lparr>offer_id = ''A''\<rparr>], page_total = 2, page_last_id = ''a''\<rparr>"
  let ?pB = "\<lparr>page_items = [\<lparr>offer_id = ''B''\<rparr>], page_total = 2, page_last_id = ''b''\<rparr>"
  let ?fetch = "\<lambda>(requests::nat) last_id.
        (if last_id = [] then Inr ?pA else if last_id = ''a'' then Inr ?pB else Inl TransportError,
         Suc requests)"
  have f: "fetched ?fetch 0 (Suc (Suc 0)) = Some ([?pA, ?pB], ''b'', Suc (Suc 0))"
    by simp
  have c: "complete [?pA, ?pB]"
    by (simp add: complete_def accumulated_def)
  from get_offer_ids_terminates [OF f c] obtain m l wm where
    pos: "0 < m" and le: "m \<le> Suc (Suc 0)"
    and fm: "fetched ?fetch 0 m = Some (take m [?pA, ?pB], l, wm)"
    and cm: "complete (take m [?pA, ?pB])"
    and g: "get_offer_ids ?fetch 0 = Some (Inr (map offer_id (accumulated (take m [?pA, ?pB]))), wm)"
    by blast
  have m: "m = Suc (Suc 0)"
  proof (rule ccontr)
    assume "m \<noteq> Suc (Suc 0)"
    then have "m = Suc 0"
      using pos le by simp
    then show False
      using cm by (simp add: complete_def accumulated_def)
  qed
  then have "wm = Suc (Suc 0)"
    using fm f by simp
  then show ?thesis
    using g m by (simp add: accumulated_def)
qed

end
